theory Spec2Isabelle
  imports Main "HOL-Library.AList"
begin

section \<open>Data model\<close>

text \<open>
  The booking dispatch engine of the backend: \<^verbatim>\<open>services/bookingQueue.service.js\<close>
  (class \<^verbatim>\<open>BookingQueueService\<close>), the socket handlers of
  \<^verbatim>\<open>services/socket.service.js\<close> that feed it, the key-value wrapper
  \<^verbatim>\<open>redis.service.js\<close>, the tail of \<^verbatim>\<open>createBooking\<close> and
  \<^verbatim>\<open>startServer\<close> of \<^verbatim>\<open>index.js\<close>.

  Every handler is an \<^verbatim>\<open>async\<close> function of a single-threaded event loop: it runs
  alone from one \<^verbatim>\<open>await\<close> to the next, and while it is suspended at an
  \<^verbatim>\<open>await\<close> other handlers run. Nothing in the sources serialises the handlers of
  one booking. A handler is a function on an explicit state that runs its blocks one
  after the other. The handlers that advance a queue are given block by block as well
  (\<open>rejectPhase1\<close>, \<open>skipPhase1\<close>, \<open>timerPhase1\<close>), so that a schedule in which
  another handler runs while one is suspended is a composition of blocks. The MongoDB
  driver is taken to answer every call, and \<^verbatim>\<open>findOneAndUpdate\<close> to be atomic on its
  document. The one exception the sources raise themselves,
  \<^verbatim>\<open>throw new Error('Redis not connected')\<close>, is a value of the result type.
\<close>

text \<open>The \<^verbatim>\<open>status\<close> strings of \<^verbatim>\<open>models/Booking.js\<close>, and
  \<^verbatim>\<open>'NO_MECHANIC_AVAILABLE'\<close>, which the queue service writes although the schema's
  enum does not list it (\<^verbatim>\<open>findByIdAndUpdate\<close> runs no validators).\<close>

datatype bookingStatus =
    PENDING | SEARCHING | ASSIGNED | ACCEPTED | EN_ROUTE | ARRIVED
  | IN_PROGRESS | COMPLETED | CANCELLED | EXPIRED | NO_MECHANIC_AVAILABLE

text \<open>The \<^verbatim>\<open>note\<close> of a \<^verbatim>\<open>statusHistory\<close> entry; the queue position and the
  queue length of the accept note are kept as numbers.\<close>

datatype historyNote =
    AcceptedViaQueue nat nat
  | NoMechanicsOrAllDeclined

record historyEntry =
  h_status :: bookingStatus
  h_timestamp :: nat
  h_note :: historyNote

text \<open>The fields of a booking document that the engine reads or writes. \<^verbatim>\<open>mechanicId\<close>
  is \<open>None\<close> for a null or missing field.\<close>

record booking =
  b_id :: string
  userId :: string
  mechanicId :: "string option"
  status :: bookingStatus
  acceptedAt :: "nat option"
  statusHistory :: "historyEntry list"

text \<open>An element of the \<^verbatim>\<open>nearbyMechanics\<close> argument: a mechanic document
  (\<^verbatim>\<open>_id\<close>, \<^verbatim>\<open>distance\<close>, \<^verbatim>\<open>fullName\<close>) or a bare identifier. The distance is a
  number that is only copied; it is a \<open>nat\<close> here.\<close>

datatype nearbyMechanic =
    MechanicDoc string "nat option" "string option"
  | BareId string

record queueMechanic =
  mech_id :: string
  distance :: "nat option"
  name :: string

record queueData =
  bookingId :: string
  q_booking :: booking
  mechanics :: "queueMechanic list"
  currentIndex :: nat
  startedAt :: nat
  timer :: "nat option"

text \<open>Values stored in Redis by the engine, each with its expiry in seconds.\<close>

datatype redisValue =
    QueueSnapshot "queueMechanic list" nat nat
  | CurrentOffer string nat nat
  | RejectRecord string nat

text \<open>Socket.io emissions: the room (or the requesting socket) and the event with the
  payload fields that are not mere copies of booking attributes.\<close>

datatype audience = ToUser string | ToMechanic string | ToSocket string

datatype ack = AckOk | AckBooking booking | AckErr string

datatype message =
    BookingNew string "nat option" nat
  | BookingTimeout string string
  | BookingAccepted string string
  | BookingCancelled string string
  | BookingNoMechanic string
  | QueueStatus string string nat nat
  | AcceptAck ack
  | RejectAck ack

text \<open>
  The state of one server process and of its collaborators:
  \<^item> \<open>activeQueues\<close>: the \<^verbatim>\<open>Map\<close> of the queue service;
  \<^item> \<open>bookings\<close>: the bookings collection, by \<^verbatim>\<open>_id\<close>;
  \<^item> \<open>redis\<close>: \<^verbatim>\<open>redisService.client\<close>, \<open>None\<close> while it is \<^verbatim>\<open>null\<close>, else the keys
    in scan order with value and expiry (expiry is recorded, not enforced);
  \<^item> \<open>timers\<close>: the pending \<^verbatim>\<open>setTimeout\<close> callbacks, by handle, each bound to the
    booking it will skip; \<open>nextTimer\<close> is the next fresh handle;
  \<^item> \<open>emitted\<close>: everything emitted so far, oldest first;
  \<^item> \<open>now\<close>: the reading of \<^verbatim>\<open>Date.now()\<close>.
\<close>

record state =
  activeQueues :: "string \<rightharpoonup> queueData"
  bookings :: "string \<rightharpoonup> booking"
  redis :: "(string \<times> redisValue \<times> nat) list option"
  timers :: "nat \<rightharpoonup> string"
  nextTimer :: nat
  emitted :: "(audience \<times> message) list"
  now :: nat

datatype 'a outcome = Returned 'a | Threw string

text \<open>Sequencing of two awaited calls: an exception of the first skips the second.\<close>

definition andThen ::
  "'a outcome \<times> state \<Rightarrow> ('a \<Rightarrow> state \<Rightarrow> 'b outcome \<times> state) \<Rightarrow> 'b outcome \<times> state" where
  "andThen r f = (case r of (Returned a, st) \<Rightarrow> f a st | (Threw e, st) \<Rightarrow> (Threw e, st))"

section \<open>Redis wrapper (\<^verbatim>\<open>redis.service.js\<close>)\<close>

definition redis_set :: "string \<Rightarrow> redisValue \<Rightarrow> nat \<Rightarrow> state \<Rightarrow> unit outcome \<times> state" where
  "redis_set key v expirySeconds st =
     (case redis st of
        None \<Rightarrow> (Threw ''Redis not connected'', st)
      | Some store \<Rightarrow>
          (Returned (), st\<lparr>redis := Some (AList.update key (v, expirySeconds) store)\<rparr>))"

definition redis_get :: "string \<Rightarrow> state \<Rightarrow> (redisValue option) outcome \<times> state" where
  "redis_get key st =
     (case redis st of
        None \<Rightarrow> (Threw ''Redis not connected'', st)
      | Some store \<Rightarrow> (Returned (map_option fst (map_of store key)), st))"

definition redis_delete :: "string \<Rightarrow> state \<Rightarrow> unit outcome \<times> state" where
  "redis_delete key st =
     (case redis st of
        None \<Rightarrow> (Threw ''Redis not connected'', st)
      | Some store \<Rightarrow> (Returned (), st\<lparr>redis := Some (AList.delete key store)\<rparr>))"

section \<open>Socket emission and timers\<close>

definition emitToUser :: "string \<Rightarrow> message \<Rightarrow> state \<Rightarrow> state" where
  "emitToUser uid msg st = st\<lparr>emitted := emitted st @ [(ToUser uid, msg)]\<rparr>"

definition emitToMechanic :: "string \<Rightarrow> message \<Rightarrow> state \<Rightarrow> state" where
  "emitToMechanic mid msg st = st\<lparr>emitted := emitted st @ [(ToMechanic mid, msg)]\<rparr>"

definition socket_emit :: "string \<Rightarrow> message \<Rightarrow> state \<Rightarrow> state" where
  "socket_emit sid msg st = st\<lparr>emitted := emitted st @ [(ToSocket sid, msg)]\<rparr>"

definition clearTimeout :: "nat \<Rightarrow> state \<Rightarrow> state" where
  "clearTimeout t st = st\<lparr>timers := (timers st)(t := None)\<rparr>"

text \<open>\<^verbatim>\<open>if (queueData.timer) clearTimeout(queueData.timer)\<close>\<close>

definition clearTimerOf :: "queueData \<Rightarrow> state \<Rightarrow> state" where
  "clearTimerOf q st = (case timer q of Some t \<Rightarrow> clearTimeout t st | None \<Rightarrow> st)"

section \<open>The queue service (\<^verbatim>\<open>bookingQueue.service.js\<close>)\<close>

definition TIMEOUT_SECONDS :: nat where
  "TIMEOUT_SECONDS = 10"

text \<open>\<^verbatim>\<open>queueData.mechanics[queueData.currentIndex]\<close>, \<open>None\<close> for \<^verbatim>\<open>undefined\<close>.\<close>

definition currentMechanic :: "queueData \<Rightarrow> queueMechanic option" where
  "currentMechanic q =
     (if currentIndex q < length (mechanics q) then Some (mechanics q ! currentIndex q) else None)"

text \<open>\<^verbatim>\<open>currentMechanic?.id !== mechanicId\<close> is false exactly here.\<close>

definition isCurrent :: "queueData \<Rightarrow> string \<Rightarrow> bool" where
  "isCurrent q mid = (map_option mech_id (currentMechanic q) = Some mid)"

definition notifyUserQueueStatus :: "string \<Rightarrow> message \<Rightarrow> state \<Rightarrow> state" where
  "notifyUserQueueStatus uid msg st = emitToUser uid msg st"

text \<open>The \<^verbatim>\<open>try\<close>/\<^verbatim>\<open>catch\<close> of \<^verbatim>\<open>saveQueueToRedis\<close> logs the exception and goes on.\<close>

definition saveQueueToRedis :: "string \<Rightarrow> queueData \<Rightarrow> state \<Rightarrow> state" where
  "saveQueueToRedis bid q st =
     snd (redis_set (''booking:queue:'' @ bid)
            (QueueSnapshot (mechanics q) (currentIndex q) (startedAt q)) 600 st)"

definition cleanupQueue :: "string \<Rightarrow> state \<Rightarrow> unit outcome \<times> state" where
  "cleanupQueue bid st =
     (let st1 = (case activeQueues st bid of Some q \<Rightarrow> clearTimerOf q st | None \<Rightarrow> st);
          st2 = st1\<lparr>activeQueues := (activeQueues st1)(bid := None)\<rparr>
      in andThen (redis_delete (''booking:queue:'' @ bid) st2)
           (\<lambda>_. redis_delete (''booking:queue:current:'' @ bid)))"

text \<open>\<^verbatim>\<open>Booking.findByIdAndUpdate(bookingId, {$set: {status}, $push: {statusHistory}})\<close>:
  no condition on the document but its identifier.\<close>

definition markNoMechanic :: "string \<Rightarrow> state \<Rightarrow> state" where
  "markNoMechanic bid st =
     (case bookings st bid of
        None \<Rightarrow> st
      | Some b \<Rightarrow>
          st\<lparr>bookings := (bookings st)(bid \<mapsto>
               b\<lparr>status := NO_MECHANIC_AVAILABLE,
                 statusHistory := statusHistory b @
                   [\<lparr>h_status = NO_MECHANIC_AVAILABLE, h_timestamp = now st,
                     h_note = NoMechanicsOrAllDeclined\<rparr>]\<rparr>)\<rparr>)"

definition handleNoMechanicsAvailable :: "booking \<Rightarrow> state \<Rightarrow> unit outcome \<times> state" where
  "handleNoMechanicsAvailable b st =
     (let bid = b_id b;
          st1 = markNoMechanic bid st;
          st2 = emitToUser (userId b) (BookingNoMechanic bid) st1
      in cleanupQueue bid st2)"

definition startTimeout :: "string \<Rightarrow> state \<Rightarrow> state" where
  "startTimeout bid st =
     (case activeQueues st bid of
        None \<Rightarrow> st
      | Some q \<Rightarrow>
          (let st1 = clearTimerOf q st;
               t = nextTimer st1;
               st2 = st1\<lparr>timers := (timers st1)(t \<mapsto> bid), nextTimer := Suc t\<rparr>
           in st2\<lparr>activeQueues := (activeQueues st2)(bid \<mapsto> q\<lparr>timer := Some t\<rparr>)\<rparr>))"

definition sendToNextMechanic :: "string \<Rightarrow> state \<Rightarrow> unit outcome \<times> state" where
  "sendToNextMechanic bid st =
     (case activeQueues st bid of
        None \<Rightarrow> (Returned (), st)
      | Some q \<Rightarrow>
          if currentIndex q \<ge> length (mechanics q)
          then handleNoMechanicsAvailable (q_booking q) st
          else
            (let cur = mechanics q ! currentIndex q;
                 st1 = emitToMechanic (mech_id cur)
                         (BookingNew (b_id (q_booking q)) (distance cur) TIMEOUT_SECONDS) st
             in andThen
                  (redis_set (''booking:queue:current:'' @ bid)
                     (CurrentOffer (mech_id cur) (now st1) (now st1 + TIMEOUT_SECONDS * 1000))
                     (TIMEOUT_SECONDS + 5) st1)
                  (\<lambda>_ st2.
                     (Returned (),
                      notifyUserQueueStatus (userId (q_booking q))
                        (QueueStatus bid ''REQUESTING'' (length (mechanics q)) (currentIndex q + 1))
                        (startTimeout bid st2)))))"

definition skipToNextMechanic :: "string \<Rightarrow> string \<Rightarrow> state \<Rightarrow> unit outcome \<times> state" where
  "skipToNextMechanic bid reason st =
     (case activeQueues st bid of
        None \<Rightarrow> (Returned (), st)
      | Some q \<Rightarrow>
          (let st1 = clearTimerOf q st;
               st2 = (case currentMechanic q of
                        Some cur \<Rightarrow>
                          emitToMechanic (mech_id cur)
                            (BookingTimeout bid
                               (if reason = ''timeout'' then ''Time expired''
                                else ''Moved to next mechanic'')) st1
                      | None \<Rightarrow> st1);
               q' = q\<lparr>timer := None, currentIndex := currentIndex q + 1\<rparr>;
               st3 = st2\<lparr>activeQueues := (activeQueues st2)(bid \<mapsto> q')\<rparr>;
               st4 = saveQueueToRedis bid q' st3
           in sendToNextMechanic bid st4))"

text \<open>\<^verbatim>\<open>reason = 'rejected'\<close> is the default of a missing argument.\<close>

definition handleMechanicReject ::
  "string \<Rightarrow> string \<Rightarrow> string option \<Rightarrow> state \<Rightarrow> unit outcome \<times> state" where
  "handleMechanicReject bid mid reasonArg st =
     (let reason = (case reasonArg of None \<Rightarrow> ''rejected'' | Some r \<Rightarrow> r)
      in case activeQueues st bid of
           None \<Rightarrow> (Returned (), st)
         | Some q \<Rightarrow>
             if \<not> isCurrent q mid then (Returned (), st)
             else andThen
                    (redis_set (''booking:reject:'' @ bid @ '':'' @ mid)
                       (RejectRecord reason (now st)) 3600 st)
                    (\<lambda>_. skipToNextMechanic bid reason))"

text \<open>
  The conditional update of both accept paths:
  \<^verbatim>\<open>Booking.findOneAndUpdate({_id, status: {$in: ['PENDING','SEARCHING']}, mechanicId: {$eq: null}},
       {$set: {mechanicId, status: 'ACCEPTED', acceptedAt}, $push: ...}, {new: true})\<close>.
  It returns the updated document, or \<open>None\<close> for \<^verbatim>\<open>null\<close> when no document matched.
  The queue path pushes a history entry, the socket fallback does not.
\<close>

definition claimable :: "booking \<Rightarrow> bool" where
  "claimable b = ((status b = PENDING \<or> status b = SEARCHING) \<and> mechanicId b = None)"

definition findOneAndUpdate_accept ::
  "string \<Rightarrow> string \<Rightarrow> historyEntry list \<Rightarrow> state \<Rightarrow> booking option \<times> state" where
  "findOneAndUpdate_accept bid mid pushed st =
     (case bookings st bid of
        None \<Rightarrow> (None, st)
      | Some b \<Rightarrow>
          if claimable b
          then (let b' = b\<lparr>mechanicId := Some mid, status := ACCEPTED,
                            acceptedAt := Some (now st),
                            statusHistory := statusHistory b @ pushed\<rparr>
                in (Some b', st\<lparr>bookings := (bookings st)(bid \<mapsto> b')\<rparr>))
          else (None, st))"

datatype acceptResult = Success booking | Failure string

definition handleMechanicAccept ::
  "string \<Rightarrow> string \<Rightarrow> state \<Rightarrow> acceptResult outcome \<times> state" where
  "handleMechanicAccept bid mid st =
     (case activeQueues st bid of
        None \<Rightarrow> (Returned (Failure ''Queue not found''), st)
      | Some q \<Rightarrow>
          if \<not> isCurrent q mid then (Returned (Failure ''Not your turn to accept''), st)
          else
            (let st1 = clearTimerOf q st
             in case findOneAndUpdate_accept bid mid
                       [\<lparr>h_status = ACCEPTED, h_timestamp = now st1,
                         h_note = AcceptedViaQueue (currentIndex q + 1) (length (mechanics q))\<rparr>]
                       st1 of
                  (None, st2) \<Rightarrow> (Returned (Failure ''Booking no longer available''), st2)
                | (Some b, st2) \<Rightarrow>
                    (let st3 = emitToUser (userId (q_booking q)) (BookingAccepted bid mid) st2;
                         st4 = fold (\<lambda>m. emitToMechanic (mech_id m)
                                           (BookingCancelled bid ''Accepted by another mechanic''))
                                 (drop (currentIndex q + 1) (mechanics q)) st3
                     in andThen (cleanupQueue bid st4) (\<lambda>_ st5. (Returned (Success b), st5)))))"

text \<open>The element of \<^verbatim>\<open>nearbyMechanics.map(...)\<close>: \<^verbatim>\<open>m.distance || null\<close> turns a zero
  distance into \<^verbatim>\<open>null\<close>, \<^verbatim>\<open>m.fullName || 'Mechanic'\<close> replaces a missing or empty
  name.\<close>

fun toQueueMechanic :: "nearbyMechanic \<Rightarrow> queueMechanic" where
  "toQueueMechanic (MechanicDoc i d n) =
     \<lparr>mech_id = i,
      distance = (case d of None \<Rightarrow> None | Some k \<Rightarrow> if k = 0 then None else Some k),
      name = (case n of None \<Rightarrow> ''Mechanic'' | Some s \<Rightarrow> if s = [] then ''Mechanic'' else s)\<rparr>"
| "toQueueMechanic (BareId i) = \<lparr>mech_id = i, distance = None, name = ''Mechanic''\<rparr>"

definition startQueue :: "booking \<Rightarrow> nearbyMechanic list \<Rightarrow> state \<Rightarrow> unit outcome \<times> state" where
  "startQueue b nearbyMechanics st =
     (let bid = b_id b
      in if length nearbyMechanics = 0 then handleNoMechanicsAvailable b st
         else
           (let q = \<lparr>bookingId = bid, q_booking = b,
                     mechanics = map toQueueMechanic nearbyMechanics,
                     currentIndex = 0, startedAt = now st, timer = None\<rparr>;
                st1 = st\<lparr>activeQueues := (activeQueues st)(bid \<mapsto> q)\<rparr>;
                st2 = saveQueueToRedis bid q st1
            in andThen (sendToNextMechanic bid st2)
                 (\<lambda>_ st3.
                    (Returned (),
                     notifyUserQueueStatus (userId b)
                       (QueueStatus bid ''SEARCHING'' (length nearbyMechanics) 1) st3))))"

section \<open>Socket handlers (\<^verbatim>\<open>socket.service.js\<close>) and the timer callback\<close>

text \<open>
  \<^verbatim>\<open>handleBookingAccept(socket, data)\<close> with \<^verbatim>\<open>socket.userId = mid\<close> and
  \<^verbatim>\<open>data.bookingId = bid\<close>. The \<^verbatim>\<open>else\<close> branch runs for every result with
  \<^verbatim>\<open>success: false\<close>; the \<^verbatim>\<open>catch\<close> acknowledges an exception as a failure.
\<close>

definition handleBookingAccept :: "string \<Rightarrow> string \<Rightarrow> state \<Rightarrow> state" where
  "handleBookingAccept mid bid st =
     (case handleMechanicAccept bid mid st of
        (Threw e, st1) \<Rightarrow> socket_emit mid (AcceptAck (AckErr e)) st1
      | (Returned (Success b), st1) \<Rightarrow> socket_emit mid (AcceptAck (AckBooking b)) st1
      | (Returned (Failure _), st1) \<Rightarrow>
          (case findOneAndUpdate_accept bid mid [] st1 of
             (None, st2) \<Rightarrow>
               socket_emit mid (AcceptAck (AckErr ''Booking no longer available'')) st2
           | (Some b, st2) \<Rightarrow>
               socket_emit mid (AcceptAck (AckBooking b))
                 (emitToUser (userId b) (BookingAccepted (b_id b) mid) st2)))"

text \<open>\<^verbatim>\<open>handleBookingReject(socket, data)\<close>; leaving the Socket.io room of the booking
  has no counterpart in the state.\<close>

definition handleBookingReject :: "string \<Rightarrow> string \<Rightarrow> string option \<Rightarrow> state \<Rightarrow> state" where
  "handleBookingReject mid bid reason st =
     (case handleMechanicReject bid mid reason st of
        (Returned _, st1) \<Rightarrow> socket_emit mid (RejectAck AckOk) st1
      | (Threw e, st1) \<Rightarrow> socket_emit mid (RejectAck (AckErr e)) st1)"

text \<open>The callback armed by \<^verbatim>\<open>startTimeout\<close>: a pending handle fires once and calls
  \<^verbatim>\<open>skipToNextMechanic(bookingId, 'timeout')\<close>; a cleared handle never fires.\<close>

definition fireTimer :: "nat \<Rightarrow> state \<Rightarrow> unit outcome \<times> state" where
  "fireTimer t st =
     (case timers st t of
        None \<Rightarrow> (Returned (), st)
      | Some bid \<Rightarrow> skipToNextMechanic bid ''timeout'' (st\<lparr>timers := (timers st)(t := None)\<rparr>))"

section \<open>The blocks of an advance\<close>

text \<open>
  \<^verbatim>\<open>handleMechanicReject\<close> is suspended at \<^verbatim>\<open>await redisService.set(...)\<close>, after
  it has compared the caller with the current candidate and before it calls
  \<^verbatim>\<open>skipToNextMechanic\<close>. \<open>rejectPhase1\<close> is the handler up to that point; it returns
  \<open>True\<close> when the handler goes on to skip and \<open>False\<close> when it has returned.
\<close>

definition rejectPhase1 ::
  "string \<Rightarrow> string \<Rightarrow> string option \<Rightarrow> state \<Rightarrow> bool outcome \<times> state" where
  "rejectPhase1 bid mid reasonArg st =
     (let reason = (case reasonArg of None \<Rightarrow> ''rejected'' | Some r \<Rightarrow> r)
      in case activeQueues st bid of
           None \<Rightarrow> (Returned False, st)
         | Some q \<Rightarrow>
             if \<not> isCurrent q mid then (Returned False, st)
             else andThen
                    (redis_set (''booking:reject:'' @ bid @ '':'' @ mid)
                       (RejectRecord reason (now st)) 3600 st)
                    (\<lambda>_ st1. (Returned True, st1)))"

text \<open>
  \<^verbatim>\<open>skipToNextMechanic\<close> is suspended at \<^verbatim>\<open>await this.saveQueueToRedis(...)\<close>,
  after it has incremented the cursor and before \<^verbatim>\<open>sendToNextMechanic\<close> compares the
  cursor with the length of the list. \<open>skipPhase1\<close> is the function up to that point:
  it reads the queue entry as it is when the block starts.
\<close>

definition skipPhase1 :: "string \<Rightarrow> string \<Rightarrow> state \<Rightarrow> state" where
  "skipPhase1 bid reason st =
     (case activeQueues st bid of
        None \<Rightarrow> st
      | Some q \<Rightarrow>
          (let st1 = clearTimerOf q st;
               st2 = (case currentMechanic q of
                        Some cur \<Rightarrow>
                          emitToMechanic (mech_id cur)
                            (BookingTimeout bid
                               (if reason = ''timeout'' then ''Time expired''
                                else ''Moved to next mechanic'')) st1
                      | None \<Rightarrow> st1);
               q' = q\<lparr>timer := None, currentIndex := currentIndex q + 1\<rparr>;
               st3 = st2\<lparr>activeQueues := (activeQueues st2)(bid \<mapsto> q')\<rparr>
           in saveQueueToRedis bid q' st3))"

text \<open>The timer callback up to the same point: the handle has fired, then the first
  block of \<^verbatim>\<open>skipToNextMechanic(bookingId, 'timeout')\<close>. What remains of both handlers
  is \<^verbatim>\<open>sendToNextMechanic\<close>, which is kept whole.\<close>

definition timerPhase1 :: "nat \<Rightarrow> state \<Rightarrow> state" where
  "timerPhase1 t st =
     (case timers st t of
        None \<Rightarrow> st
      | Some bid \<Rightarrow> skipPhase1 bid ''timeout'' (st\<lparr>timers := (timers st)(t := None)\<rparr>))"

section \<open>Callers: booking creation, recovery, start-up\<close>

text \<open>The end of \<^verbatim>\<open>createBooking\<close>, after \<^verbatim>\<open>Booking.create\<close> has stored the document
  \<open>b\<close> and \<^verbatim>\<open>findNearbyMechanics\<close> has returned its list.\<close>

definition createBooking_dispatch ::
  "booking \<Rightarrow> nearbyMechanic list \<Rightarrow> state \<Rightarrow> unit outcome \<times> state" where
  "createBooking_dispatch b nearbyMechanics st =
     (if length nearbyMechanics > 0 then startQueue b nearbyMechanics st
      else handleNoMechanicsAvailable b st)"

text \<open>\<^verbatim>\<open>key.includes(sub)\<close> and the glob \<^verbatim>\<open>MATCH: 'booking:queue:*'\<close>.\<close>

definition startsWith :: "string \<Rightarrow> string \<Rightarrow> bool" where
  "startsWith s p = (take (length p) s = p)"

fun includes_str :: "string \<Rightarrow> string \<Rightarrow> bool" where
  "includes_str [] sub = (sub = [])"
| "includes_str (c # cs) sub = (startsWith (c # cs) sub \<or> includes_str cs sub)"

text \<open>
  The body of the \<^verbatim>\<open>for\<close> loop of \<^verbatim>\<open>restoreQueues\<close> for one key.
  \<^verbatim>\<open>key.replace('booking:queue:', '')\<close> removes the prefix the scan matched. A value
  under such a key that is no queue snapshot is passed over.
\<close>

definition restoreKey :: "string \<Rightarrow> state \<Rightarrow> unit outcome \<times> state" where
  "restoreKey key st =
     (if includes_str key '':current:'' then (Returned (), st)
      else
        (let bid = drop (length ''booking:queue:'') key
         in andThen (redis_get key st)
              (\<lambda>queueData st1.
                 case (bookings st1 bid, queueData) of
                   (Some b, Some (QueueSnapshot ms idx started)) \<Rightarrow>
                     if status b = SEARCHING
                     then sendToNextMechanic bid
                            (st1\<lparr>activeQueues := (activeQueues st1)(bid \<mapsto>
                                   \<lparr>bookingId = bid, q_booking = b, mechanics = ms,
                                    currentIndex = idx, startedAt = started, timer = None\<rparr>)\<rparr>)
                     else (Returned (), st1)
                 | _ \<Rightarrow> (Returned (), st1))))"

fun restoreKeys :: "string list \<Rightarrow> state \<Rightarrow> unit outcome \<times> state" where
  "restoreKeys [] st = (Returned (), st)"
| "restoreKeys (key # keys) st = andThen (restoreKey key st) (\<lambda>_. restoreKeys keys)"

text \<open>The scan pages are taken together as the keys present when the pass begins; keys
  written during the pass are \<^verbatim>\<open>:current:\<close> markers, which the loop skips. The outer
  \<^verbatim>\<open>try\<close>/\<^verbatim>\<open>catch\<close> ends the pass at the first exception, also that of scanning with
  a \<^verbatim>\<open>null\<close> client.\<close>

definition restoreQueues :: "state \<Rightarrow> state" where
  "restoreQueues st =
     (case redis st of
        None \<Rightarrow> st
      | Some store \<Rightarrow>
          snd (restoreKeys (filter (\<lambda>k. startsWith k ''booking:queue:'') (map fst store)) st))"

text \<open>
  \<^verbatim>\<open>startServer\<close> of \<^verbatim>\<open>index.js\<close>: connect to MongoDB, call
  \<^verbatim>\<open>redisService.connect()\<close>, initialise Socket.io, listen. \<^verbatim>\<open>connect()\<close> assigns
  \<^verbatim>\<open>this.client\<close> before it awaits the connection and nothing resets it, so the client
  is not \<^verbatim>\<open>null\<close> when the first handler runs, whether or not the connection was made;
  like MongoDB, the Redis server is taken to answer every call. The process begins with
  the queue service as its constructor leaves it and with no timer. The contents of
  Redis and of the bookings collection are those the previous process left.
\<close>

definition startServer ::
  "(string \<times> redisValue \<times> nat) list \<Rightarrow> (string \<rightharpoonup> booking) \<Rightarrow> nat \<Rightarrow> state" where
  "startServer store db clock =
     \<lparr>activeQueues = Map.empty, bookings = db, redis = Some store,
      timers = Map.empty, nextTimer = 0, emitted = [], now = clock\<rparr>"

section \<open>Runs of the engine\<close>

text \<open>What reaches the engine of a running process: a mechanic's \<^verbatim>\<open>booking:accept\<close> or
  \<^verbatim>\<open>booking:reject\<close>, a timer that fires, a booking that was just created. \<open>step\<close>
  handles one event to the end of its handler and \<open>run\<close> handles a list of events one
  after the other: these are the serial schedules of the engine, in which no handler
  starts while another is suspended. The event loop does not enforce them; a schedule
  that interleaves two advances is written with the blocks of the preceding section.\<close>

datatype event =
    BookingAccept string string
  | BookingReject string string "string option"
  | TimerFires nat
  | CreateBooking booking "nearbyMechanic list"

fun step :: "event \<Rightarrow> state \<Rightarrow> state" where
  "step (BookingAccept mid bid) st = handleBookingAccept mid bid st"
| "step (BookingReject mid bid reason) st = handleBookingReject mid bid reason st"
| "step (TimerFires t) st = snd (fireTimer t st)"
| "step (CreateBooking b nearbyMechanics) st = snd (createBooking_dispatch b nearbyMechanics st)"

definition run :: "event list \<Rightarrow> state \<Rightarrow> state" where
  "run es st = fold step es st"

section \<open>Notions of the properties\<close>

text \<open>The document \<open>b\<close> after a matching conditional update by mechanic \<open>mid\<close> at
  time \<open>t\<close>.\<close>

definition claimed :: "booking \<Rightarrow> string \<Rightarrow> nat \<Rightarrow> historyEntry list \<Rightarrow> booking" where
  "claimed b mid t pushed =
     b\<lparr>mechanicId := Some mid, status := ACCEPTED, acceptedAt := Some t,
       statusHistory := statusHistory b @ pushed\<rparr>"

definition claimableAt :: "state \<Rightarrow> string \<Rightarrow> bool" where
  "claimableAt st bid = (case bookings st bid of None \<Rightarrow> False | Some b \<Rightarrow> claimable b)"

text \<open>An accept attempt succeeds when its conditional update matched and modified the
  booking document.\<close>

definition acceptSucceeds :: "string \<Rightarrow> string \<Rightarrow> state \<Rightarrow> bool" where
  "acceptSucceeds mid bid st = (bookings (handleBookingAccept mid bid st) bid \<noteq> bookings st bid)"

text \<open>The number of accept attempts on booking \<open>bid\<close> that succeed during a run.\<close>

fun acceptWins :: "event list \<Rightarrow> state \<Rightarrow> string \<Rightarrow> nat" where
  "acceptWins [] st bid = 0"
| "acceptWins (e # es) st bid =
     (case e of
        BookingAccept mid b \<Rightarrow> (if b = bid \<and> acceptSucceeds mid bid st then 1 else 0)
      | _ \<Rightarrow> 0) + acceptWins es (step e st) bid"

text \<open>What one handler may do to one booking document: leave it, or leave it not
  claimable with status \<^verbatim>\<open>NO_MECHANIC_AVAILABLE\<close>, or turn a claimable document
  into an \<^verbatim>\<open>ACCEPTED\<close> one.\<close>

definition writeOk :: "booking option \<Rightarrow> booking option \<Rightarrow> bool" where
  "writeOk old new =
     (new = old \<or>
      (case (old, new) of
         (Some b, Some b') \<Rightarrow>
           \<not> claimable b' \<and>
           (status b' = NO_MECHANIC_AVAILABLE \<or> (claimable b \<and> status b' = ACCEPTED))
       | _ \<Rightarrow> False))"

text \<open>Statuses before and after one handler, as the engine writes them.\<close>

definition statusWriteOk :: "bookingStatus option \<Rightarrow> bookingStatus option \<Rightarrow> bool" where
  "statusWriteOk old new =
     (new = old \<or> new = Some NO_MECHANIC_AVAILABLE \<or>
      ((old = Some PENDING \<or> old = Some SEARCHING) \<and> new = Some ACCEPTED))"

text \<open>
  The worker or workers holding an active offer for booking \<open>bid\<close>, read off the
  emissions so far: \<^verbatim>\<open>booking:new\<close> gives the offer to a mechanic,
  \<^verbatim>\<open>booking:timeout\<close> withdraws it from that mechanic, and \<^verbatim>\<open>booking:accepted\<close> or
  \<^verbatim>\<open>booking:no-mechanic\<close> end the search for everyone.
\<close>

fun offerUpd :: "string \<Rightarrow> audience \<times> message \<Rightarrow> string set \<Rightarrow> string set" where
  "offerUpd bid (ToMechanic m, BookingNew b d t) H = (if b = bid then insert m H else H)"
| "offerUpd bid (ToMechanic m, BookingTimeout b r) H = (if b = bid then H - {m} else H)"
| "offerUpd bid (ToUser u, BookingAccepted b m) H = (if b = bid then {} else H)"
| "offerUpd bid (ToUser u, BookingNoMechanic b) H = (if b = bid then {} else H)"
| "offerUpd bid _ H = H"

definition offerHolders :: "(audience \<times> message) list \<Rightarrow> string \<Rightarrow> string set" where
  "offerHolders log bid = fold (offerUpd bid) log {}"

definition OH :: "state \<Rightarrow> string \<Rightarrow> string set" where
  "OH st bid = offerHolders (emitted st) bid"

fun isOffer :: "audience \<times> message \<Rightarrow> bool" where
  "isOffer (a, BookingNew b d t) = True"
| "isOffer (a, m) = False"

text \<open>The identifier of the current candidate of a queue entry, as a set.\<close>

definition curSet :: "queueData option \<Rightarrow> string set" where
  "curSet qo =
     (case qo of
        None \<Rightarrow> {}
      | Some q \<Rightarrow> (case currentMechanic q of None \<Rightarrow> {} | Some m \<Rightarrow> {mech_id m}))"

text \<open>Every queue entry is stored under the identifier of its own booking, as
  \<^verbatim>\<open>startQueue\<close> and \<^verbatim>\<open>restoreQueues\<close> store it.\<close>

definition wfQueues :: "state \<Rightarrow> bool" where
  "wfQueues st = (\<forall>k q. activeQueues st k = Some q \<longrightarrow> b_id (q_booking q) = k)"

text \<open>Every queue entry has its cursor on one of its candidates.\<close>

definition cursorInv :: "state \<Rightarrow> bool" where
  "cursorInv st = (\<forall>k q. activeQueues st k = Some q \<longrightarrow> currentIndex q < length (mechanics q))"

text \<open>The invariant of dispatch: only the current candidate of an active queue can
  hold an offer.\<close>

definition dispatchInv :: "state \<Rightarrow> bool" where
  "dispatchInv st =
     (wfQueues st \<and> (\<forall>bid. offerHolders (emitted st) bid \<subseteq> curSet (activeQueues st bid)))"

text \<open>\<^verbatim>\<open>createBooking\<close> starts a queue for the booking it has just created, which has
  no queue yet.\<close>

fun validEvent :: "event \<Rightarrow> state \<Rightarrow> bool" where
  "validEvent (CreateBooking b ms) st = (activeQueues st (b_id b) = None)"
| "validEvent _ st = True"

fun validRun :: "event list \<Rightarrow> state \<Rightarrow> bool" where
  "validRun [] st = True"
| "validRun (e # es) st = (validEvent e st \<and> validRun es (step e st))"

text \<open>
  Abbreviations for the lemmas on the handlers: \<open>OH\<close> above are the offer holders of
  a state; \<open>noTimer\<close> is a queue entry without its timer handle and \<open>vq\<close> the queue
  table without timer handles; \<open>bumped\<close> is an entry after one advance; \<open>advVq\<close>
  and \<open>advOH\<close> are the table and the offer holders after an advance of booking \<open>k\<close>.
\<close>

definition noTimer :: "queueData \<Rightarrow> queueData" where
  "noTimer q = q\<lparr>timer := None\<rparr>"

definition vq :: "state \<Rightarrow> string \<Rightarrow> queueData option" where
  "vq st bid = map_option noTimer (activeQueues st bid)"

definition bumped :: "queueData \<Rightarrow> queueData" where
  "bumped q = q\<lparr>timer := None, currentIndex := Suc (currentIndex q)\<rparr>"

definition advVq :: "state \<Rightarrow> string \<Rightarrow> string \<Rightarrow> queueData option" where
  "advVq st k bid =
     (case activeQueues st k of
        None \<Rightarrow> vq st bid
      | Some q \<Rightarrow>
          if bid \<noteq> k then vq st bid
          else if length (mechanics q) \<le> Suc (currentIndex q) then None
          else Some (bumped q))"

definition advOH :: "state \<Rightarrow> string \<Rightarrow> string \<Rightarrow> string set" where
  "advOH st k bid =
     (case activeQueues st k of
        None \<Rightarrow> OH st bid
      | Some q \<Rightarrow>
          if bid \<noteq> k then OH st bid
          else if length (mechanics q) \<le> Suc (currentIndex q) then {}
          else insert (mech_id (mechanics q ! Suc (currentIndex q)))
                 (case currentMechanic q of
                    Some cur \<Rightarrow> OH st bid - {mech_id cur}
                  | None \<Rightarrow> OH st bid))"

text \<open>The emissions of an advance to a next candidate, and the state \<open>st'\<close> after
  such an advance of queue entry \<open>q\<close> from state \<open>st\<close>: pending timer cancelled, new
  timer armed, skipped candidate notified before the offer to the next one, cursor
  incremented, snapshot persisted.\<close>

definition withdrawn :: "string \<Rightarrow> string" where
  "withdrawn reason = (if reason = ''timeout'' then ''Time expired'' else ''Moved to next mechanic'')"

definition advanceEmits :: "string \<Rightarrow> queueData \<Rightarrow> string \<Rightarrow> (audience \<times> message) list" where
  "advanceEmits bid q reason =
     [(ToMechanic (mech_id (mechanics q ! currentIndex q)),
       BookingTimeout bid
         (if reason = ''timeout'' then ''Time expired'' else ''Moved to next mechanic'')),
      (ToMechanic (mech_id (mechanics q ! Suc (currentIndex q))),
       BookingNew (b_id (q_booking q)) (distance (mechanics q ! Suc (currentIndex q)))
         TIMEOUT_SECONDS),
      (ToUser (userId (q_booking q)),
       QueueStatus bid ''REQUESTING'' (length (mechanics q)) (currentIndex q + 2))]"

definition advancedFrom :: "string \<Rightarrow> queueData \<Rightarrow> string \<Rightarrow> state \<Rightarrow> state \<Rightarrow> bool" where
  "advancedFrom bid q reason st st' =
     ((case timer q of Some t0 \<Rightarrow> t0 = nextTimer st \<or> timers st' t0 = None | None \<Rightarrow> True)
      \<and> timers st' (nextTimer st) = Some bid
      \<and> emitted st' = emitted st @ advanceEmits bid q reason
      \<and> activeQueues st' bid =
          Some (q\<lparr>timer := Some (nextTimer st), currentIndex := Suc (currentIndex q)\<rparr>)
      \<and> (case redis st' of
            None \<Rightarrow> False
          | Some s \<Rightarrow> map_of s (''booking:queue:'' @ bid) =
                       Some (QueueSnapshot (mechanics q) (Suc (currentIndex q)) (startedAt q), 600)))"

text \<open>The state \<open>st1\<close> in which an advance of queue entry \<open>q\<close> from state \<open>st\<close> is
  suspended before it offers: pending timer cancelled, skipped candidate notified,
  cursor incremented, snapshot persisted.\<close>

definition advanceBegun :: "string \<Rightarrow> queueData \<Rightarrow> string \<Rightarrow> state \<Rightarrow> state \<Rightarrow> bool" where
  "advanceBegun bid q reason st st1 =
     ((case timer q of Some t0 \<Rightarrow> timers st1 t0 = None | None \<Rightarrow> True)
      \<and> emitted st1 = emitted st @
            [(ToMechanic (mech_id (mechanics q ! currentIndex q)),
              BookingTimeout bid
                (if reason = ''timeout'' then ''Time expired'' else ''Moved to next mechanic''))]
      \<and> activeQueues st1 bid = Some (q\<lparr>timer := None, currentIndex := Suc (currentIndex q)\<rparr>)
      \<and> (case redis st1 of
            None \<Rightarrow> False
          | Some s \<Rightarrow> map_of s (''booking:queue:'' @ bid) =
                       Some (QueueSnapshot (mechanics q) (Suc (currentIndex q)) (startedAt q), 600)))"

text \<open>The state \<open>st'\<close> after an advance from the last candidate: pending timer
  cancelled, the last candidate notified and then the requester, queue entry and
  snapshot removed, status \<^verbatim>\<open>NO_MECHANIC_AVAILABLE\<close> written.\<close>

definition exhaustedFrom :: "string \<Rightarrow> queueData \<Rightarrow> string \<Rightarrow> state \<Rightarrow> state \<Rightarrow> bool" where
  "exhaustedFrom bid q reason st st' =
     ((case timer q of Some t0 \<Rightarrow> timers st' t0 = None | None \<Rightarrow> True)
      \<and> emitted st' = emitted st @
            [(ToMechanic (mech_id (mechanics q ! currentIndex q)),
              BookingTimeout bid
                (if reason = ''timeout'' then ''Time expired'' else ''Moved to next mechanic'')),
             (ToUser (userId (q_booking q)), BookingNoMechanic bid)]
      \<and> activeQueues st' bid = None
      \<and> map_option status (bookings st' bid) =
          map_option (\<lambda>_. NO_MECHANIC_AVAILABLE) (bookings st bid)
      \<and> (case redis st' of
            None \<Rightarrow> False
          | Some s \<Rightarrow> map_of s (''booking:queue:'' @ bid) = None))"

text \<open>The state after a whole advance: an offer to the next candidate if there is
  one, the end of the queue otherwise.\<close>

definition advanceOutcome :: "string \<Rightarrow> queueData \<Rightarrow> string \<Rightarrow> state \<Rightarrow> state \<Rightarrow> bool" where
  "advanceOutcome bid q reason st st' =
     (if Suc (currentIndex q) < length (mechanics q) then advancedFrom bid q reason st st'
      else exhaustedFrom bid q reason st st')"

text \<open>The reason of a reject, \<^verbatim>\<open>'rejected'\<close> when the argument is missing.\<close>

definition rejectReason :: "string option \<Rightarrow> string" where
  "rejectReason reasonArg = (case reasonArg of None \<Rightarrow> ''rejected'' | Some r \<Rightarrow> r)"

text \<open>The cursor of a booking's queue, the events that start a queue for the booking
  anew, and the number of events of a run at which the cursor changes or the queue
  ends.\<close>

definition cursorOf :: "state \<Rightarrow> string \<Rightarrow> nat option" where
  "cursorOf st bid = map_option currentIndex (activeQueues st bid)"



section \<open>Sample states\<close>

definition booking1 :: booking where
  "booking1 = \<lparr>b_id = ''b1'', userId = ''u1'', mechanicId = None, status = SEARCHING,
               acceptedAt = None, statusHistory = []\<rparr>"

text \<open>A process with booking \<open>b1\<close> stored, Redis connected and empty, nothing queued.\<close>

definition idle :: state where
  "idle = \<lparr>activeQueues = Map.empty, bookings = [''b1'' \<mapsto> booking1], redis = Some [],
           timers = Map.empty, nextTimer = 0, emitted = [], now = 5\<rparr>"

text \<open>Booking \<open>b1\<close> was created with the candidates A and B; A holds the offer.\<close>

definition queued :: state where
  "queued = run [CreateBooking booking1 [BareId ''A'', BareId ''B'']] idle"

definition queueAB :: queueData where
  "queueAB = \<lparr>bookingId = ''b1'', q_booking = booking1,
               mechanics = [\<lparr>mech_id = ''A'', distance = None, name = ''Mechanic''\<rparr>,
                            \<lparr>mech_id = ''B'', distance = None, name = ''Mechanic''\<rparr>],
               currentIndex = 0, startedAt = 5, timer = Some 0\<rparr>"

text \<open>Then B, who is not the current candidate, sent \<^verbatim>\<open>booking:accept\<close>.\<close>

definition taken :: state where
  "taken = run [CreateBooking booking1 [BareId ''A'', BareId ''B''], BookingAccept ''B'' ''b1''] idle"

text \<open>Or A rejected, so that B holds the offer.\<close>

definition rejected1 :: state where
  "rejected1 = run [CreateBooking booking1 [BareId ''A'', BareId ''B''],
                    BookingReject ''A'' ''b1'' None] idle"

text \<open>Booking \<open>b1\<close> was created with the single candidate A.\<close>

definition queueA :: queueData where
  "queueA = \<lparr>bookingId = ''b1'', q_booking = booking1,
               mechanics = [\<lparr>mech_id = ''A'', distance = None, name = ''Mechanic''\<rparr>],
               currentIndex = 0, startedAt = 5, timer = Some 0\<rparr>"

definition queuedA :: state where
  "queuedA = run [CreateBooking booking1 [BareId ''A'']] idle"

text \<open>A process that starts while Redis holds the snapshot of \<open>b1\<close> at cursor 1 and
  the booking is still \<^verbatim>\<open>SEARCHING\<close>.\<close>

definition mechAB :: "queueMechanic list" where
  "mechAB = [\<lparr>mech_id = ''A'', distance = None, name = ''Mechanic''\<rparr>,
             \<lparr>mech_id = ''B'', distance = None, name = ''Mechanic''\<rparr>]"

definition restarted :: state where
  "restarted = startServer
     [(''booking:queue:b1'', QueueSnapshot mechAB 1 3, 600),
      (''booking:queue:current:b1'', CurrentOffer ''B'' 3 10003, 15)]
     [''b1'' \<mapsto> booking1] 7"

text \<open>A race on the queue of A and B. A's reject has passed the comparison with the
  current candidate and is suspended at \<^verbatim>\<open>await redisService.set\<close>; timer 0 is still
  pending.\<close>

definition rejectAwaits :: state where
  "rejectAwaits = snd (rejectPhase1 ''b1'' ''A'' None queued)"

text \<open>Timer 0 fires, and its callback runs up to \<^verbatim>\<open>await saveQueueToRedis\<close>.\<close>

definition timerSkipped :: state where
  "timerSkipped = timerPhase1 0 rejectAwaits"

text \<open>The reject resumes and runs \<^verbatim>\<open>skipToNextMechanic\<close> up to the same point.\<close>

definition rejectSkipped :: state where
  "rejectSkipped = skipPhase1 ''b1'' ''rejected'' timerSkipped"

text \<open>The timer callback resumes and runs \<^verbatim>\<open>sendToNextMechanic\<close>.\<close>

definition timerDone :: state where
  "timerDone = snd (sendToNextMechanic ''b1'' rejectSkipped)"

text \<open>The reject resumes and runs \<^verbatim>\<open>sendToNextMechanic\<close>.\<close>

definition rejectDone :: state where
  "rejectDone = snd (sendToNextMechanic ''b1'' timerDone)"




section \<open>Frame lemmas\<close>

lemmas prim_defs = redis_set_def redis_get_def redis_delete_def emitToUser_def emitToMechanic_def
  socket_emit_def clearTimeout_def clearTimerOf_def notifyUserQueueStatus_def saveQueueToRedis_def
  andThen_def

lemmas engine_defs = prim_defs cleanupQueue_def markNoMechanic_def handleNoMechanicsAvailable_def
  startTimeout_def sendToNextMechanic_def skipToNextMechanic_def handleMechanicReject_def
  findOneAndUpdate_accept_def handleMechanicAccept_def startQueue_def handleBookingAccept_def
  handleBookingReject_def fireTimer_def createBooking_dispatch_def currentMechanic_def
  isCurrent_def claimable_def TIMEOUT_SECONDS_def run_def Let_def

lemma snd_andThen:
  "snd (andThen r f) = (case fst r of Returned a \<Rightarrow> snd (f a (snd r)) | Threw e \<Rightarrow> snd r)"
  by (cases r; cases "fst r") (auto simp: andThen_def)

lemma writeOk_refl [simp]: "writeOk x x" by (simp add: writeOk_def)

lemma writeOk_trans: "writeOk x y \<Longrightarrow> writeOk y z \<Longrightarrow> writeOk x z"
  by (auto simp: writeOk_def claimable_def split: option.splits)

lemma bookings_cleanupQueue [simp]: "bookings (snd (cleanupQueue bid st)) = bookings st"
  by (simp add: cleanupQueue_def prim_defs Let_def split: option.splits)

lemma bookings_cleanupQueue' [simp]: "cleanupQueue bid st = (r, st') \<Longrightarrow> bookings st' = bookings st"
  using bookings_cleanupQueue [of bid st] by simp

lemma bookings_startTimeout [simp]: "bookings (startTimeout bid st) = bookings st"
  by (simp add: startTimeout_def prim_defs Let_def split: option.splits)

lemma writeOk_markNoMechanic: "writeOk (bookings st k) (bookings (markNoMechanic bid st) k)"
  by (simp add: markNoMechanic_def writeOk_def claimable_def split: option.splits)

lemma writeOk_handleNoMechanicsAvailable:
  "writeOk (bookings st k) (bookings (snd (handleNoMechanicsAvailable b st)) k)"
  using writeOk_markNoMechanic [of st k "b_id b"]
  by (simp add: handleNoMechanicsAvailable_def Let_def emitToUser_def)

lemma writeOk_sendToNextMechanic:
  "writeOk (bookings st k) (bookings (snd (sendToNextMechanic bid st)) k)"
  by (auto simp: sendToNextMechanic_def Let_def prim_defs writeOk_handleNoMechanicsAvailable split: option.splits)

lemma writeOk_skipToNextMechanic:
  "writeOk (bookings st k) (bookings (snd (skipToNextMechanic bid reason st)) k)"
proof (cases "activeQueues st bid")
  case None
  then show ?thesis by (simp add: skipToNextMechanic_def)
next
  case (Some q)
  obtain st4 where st4: "snd (skipToNextMechanic bid reason st) = snd (sendToNextMechanic bid st4)"
    and b: "bookings st4 = bookings st"
    using Some by (auto simp: skipToNextMechanic_def Let_def prim_defs split: option.splits)
  show ?thesis using writeOk_sendToNextMechanic [of st4 k bid] by (simp add: st4 b)
qed

lemma writeOk_handleMechanicReject:
  "writeOk (bookings st k) (bookings (snd (handleMechanicReject bid mid r st)) k)"
proof (cases "activeQueues st bid")
  case None
  then show ?thesis by (simp add: handleMechanicReject_def)
next
  case (Some q)
  show ?thesis
  proof (cases "isCurrent q mid \<and> redis st \<noteq> None")
    case False
    then show ?thesis
      using Some by (auto simp: handleMechanicReject_def redis_set_def andThen_def Let_def)
  next
    case True
    then obtain store where store: "redis st = Some store" by auto
    define reason where "reason = (case r of None \<Rightarrow> ''rejected'' | Some x \<Rightarrow> x)"
    define st1 where "st1 = st\<lparr>redis := Some (AList.update (''booking:reject:'' @ bid @ '':'' @ mid)
                                  (RejectRecord reason (now st), 3600) store)\<rparr>"
    have "handleMechanicReject bid mid r st = skipToNextMechanic bid reason st1"
      using Some True store
      by (simp add: handleMechanicReject_def redis_set_def andThen_def reason_def st1_def Let_def)
    moreover have "bookings st1 = bookings st" by (simp add: st1_def)
    ultimately show ?thesis
      using writeOk_skipToNextMechanic [of st1 k bid reason] by simp
  qed
qed

lemma writeOk_fireTimer: "writeOk (bookings st k) (bookings (snd (fireTimer t st)) k)"
proof (cases "timers st t")
  case None
  then show ?thesis by (simp add: fireTimer_def)
next
  case (Some bid)
  show ?thesis
    using writeOk_skipToNextMechanic [of "st\<lparr>timers := (timers st)(t := None)\<rparr>" k bid "''timeout''"]
    by (simp add: fireTimer_def Some)
qed

lemma writeOk_findOneAndUpdate_accept:
  "writeOk (bookings st k) (bookings (snd (findOneAndUpdate_accept bid mid pushed st)) k)"
  by (simp add: findOneAndUpdate_accept_def writeOk_def claimable_def Let_def split: option.splits)

lemma bookings_fold_emit [simp]:
  "bookings (fold (\<lambda>m. emitToMechanic (f m) msg) ms st) = bookings st"
  by (induction ms arbitrary: st) (simp_all add: emitToMechanic_def)

lemma writeOk_handleMechanicAccept:
  "writeOk (bookings st k) (bookings (snd (handleMechanicAccept bid mid st)) k)"
proof -
  have "snd (handleMechanicAccept bid mid st) = st \<or>
        (\<exists>st1 pushed. bookings st1 = bookings st \<and>
           bookings (snd (handleMechanicAccept bid mid st)) =
           bookings (snd (findOneAndUpdate_accept bid mid pushed st1)))"
  proof (cases "activeQueues st bid")
    case None
    then show ?thesis by (simp add: handleMechanicAccept_def)
  next
    case (Some q)
    show ?thesis
    proof (cases "isCurrent q mid")
      case False
      then show ?thesis using Some by (simp add: handleMechanicAccept_def)
    next
      case True
      let ?st1 = "clearTimerOf q st"
      let ?pushed = "[\<lparr>h_status = ACCEPTED, h_timestamp = now ?st1,
                       h_note = AcceptedViaQueue (currentIndex q + 1) (length (mechanics q))\<rparr>]"
      have b1: "bookings ?st1 = bookings st"
        by (simp add: prim_defs split: option.splits)
      have "bookings (snd (handleMechanicAccept bid mid st)) =
            bookings (snd (findOneAndUpdate_accept bid mid ?pushed ?st1))"
        using Some True
        by (cases "findOneAndUpdate_accept bid mid ?pushed ?st1")
           (auto simp: handleMechanicAccept_def Let_def andThen_def emitToUser_def
                 split: option.splits prod.splits outcome.splits)
      with b1 show ?thesis by blast
    qed
  qed
  then show ?thesis using writeOk_findOneAndUpdate_accept by (metis writeOk_refl)
qed

lemma writeOk_handleBookingAccept:
  "writeOk (bookings st k) (bookings (handleBookingAccept mid bid st) k)"
proof -
  obtain r st1 where h: "handleMechanicAccept bid mid st = (r, st1)" by (cases "handleMechanicAccept bid mid st")
  have w1: "writeOk (bookings st k) (bookings st1 k)"
    using writeOk_handleMechanicAccept [of st k bid mid] by (simp add: h)
  have w2: "writeOk (bookings st1 k) (bookings (snd (findOneAndUpdate_accept bid mid [] st1)) k)"
    by (rule writeOk_findOneAndUpdate_accept)
  have "bookings (handleBookingAccept mid bid st) = bookings st1 \<or>
        bookings (handleBookingAccept mid bid st) = bookings (snd (findOneAndUpdate_accept bid mid [] st1))"
    by (cases "findOneAndUpdate_accept bid mid [] st1")
       (auto simp: handleBookingAccept_def h socket_emit_def emitToUser_def
             split: outcome.splits acceptResult.splits option.splits)
  then show ?thesis using w1 w2 writeOk_trans by metis
qed

lemma writeOk_handleBookingReject:
  "writeOk (bookings st k) (bookings (handleBookingReject mid bid r st) k)"
proof -
  have "bookings (handleBookingReject mid bid r st) = bookings (snd (handleMechanicReject bid mid r st))"
    by (cases "handleMechanicReject bid mid r st")
       (auto simp: handleBookingReject_def socket_emit_def split: outcome.splits)
  then show ?thesis using writeOk_handleMechanicReject [of st k bid mid r] by simp
qed

lemma writeOk_startQueue:
  "writeOk (bookings st k) (bookings (snd (startQueue b ms st)) k)"
proof (cases "ms = []")
  case True
  then show ?thesis by (simp add: startQueue_def writeOk_handleNoMechanicsAvailable)
next
  case False
  define q where "q = \<lparr>bookingId = b_id b, q_booking = b, mechanics = map toQueueMechanic ms,
                       currentIndex = 0, startedAt = now st, timer = None\<rparr>"
  define st2 where "st2 = saveQueueToRedis (b_id b) q (st\<lparr>activeQueues := (activeQueues st)(b_id b \<mapsto> q)\<rparr>)"
  have b2: "bookings st2 = bookings st"
    by (simp add: st2_def saveQueueToRedis_def redis_set_def split: option.splits)
  have "bookings (snd (startQueue b ms st)) = bookings (snd (sendToNextMechanic (b_id b) st2))"
    using False
    by (simp add: startQueue_def Let_def snd_andThen q_def st2_def notifyUserQueueStatus_def
          emitToUser_def split: outcome.splits)
  then show ?thesis using writeOk_sendToNextMechanic [of st2 k "b_id b"] by (simp add: b2)
qed

lemma writeOk_step: "writeOk (bookings st k) (bookings (step e st) k)"
  by (cases e)
     (simp_all add: writeOk_handleBookingAccept writeOk_handleBookingReject writeOk_fireTimer
        createBooking_dispatch_def writeOk_startQueue writeOk_handleNoMechanicsAvailable)

lemma findOneAndUpdate_accept_eq:
  "findOneAndUpdate_accept bid mid pushed st =
     (if claimableAt st bid
      then (Some (claimed (the (bookings st bid)) mid (now st) pushed),
            st\<lparr>bookings := (bookings st)(bid \<mapsto> claimed (the (bookings st bid)) mid (now st) pushed)\<rparr>)
      else (None, st))"
  by (simp add: findOneAndUpdate_accept_def claimableAt_def claimed_def Let_def split: option.splits)

lemma not_claimable_claimed [simp]: "\<not> claimable (claimed b mid t pushed)"
  by (simp add: claimable_def claimed_def)

lemma handleMechanicAccept_unclaimable:
  assumes "\<not> claimableAt st bid"
  shows "\<exists>e st1. handleMechanicAccept bid mid st = (Returned (Failure e), st1) \<and>
           bookings st1 = bookings st \<and> now st1 = now st \<and> emitted st1 = emitted st"
proof (cases "activeQueues st bid")
  case None
  then show ?thesis by (simp add: handleMechanicAccept_def)
next
  case (Some q)
  have "\<not> claimableAt (clearTimerOf q st) bid"
    using assms by (simp add: claimableAt_def clearTimerOf_def clearTimeout_def split: option.splits)
  then show ?thesis
    using Some
    by (simp add: handleMechanicAccept_def findOneAndUpdate_accept_eq clearTimerOf_def
          clearTimeout_def split: option.splits)
qed

lemma handleMechanicAccept_claimable:
  assumes "claimableAt st bid" and "handleMechanicAccept bid mid st = (r, st1)"
  shows "(\<exists>e. r = Returned (Failure e) \<and> bookings st1 = bookings st \<and> now st1 = now st)
         \<or> ((\<forall>e. r \<noteq> Returned (Failure e)) \<and>
             (\<exists>pushed. bookings st1 =
                (bookings st)(bid \<mapsto> claimed (the (bookings st bid)) mid (now st) pushed)))"
proof (cases "activeQueues st bid")
  case None
  then show ?thesis using assms by (auto simp: handleMechanicAccept_def)
next
  case (Some q)
  show ?thesis
  proof (cases "isCurrent q mid")
    case False
    then show ?thesis using assms Some by (auto simp: handleMechanicAccept_def)
  next
    case True
    have c: "claimableAt (clearTimerOf q st) bid"
      using assms(1) by (simp add: claimableAt_def clearTimerOf_def clearTimeout_def split: option.splits)
    have n: "now (clearTimerOf q st) = now st" "bookings (clearTimerOf q st) = bookings st"
      by (simp_all add: clearTimerOf_def clearTimeout_def split: option.splits)
    have "(\<forall>e. r \<noteq> Returned (Failure e)) \<and>
          bookings st1 = (bookings st)(bid \<mapsto> claimed (the (bookings st bid)) mid (now st)
             [\<lparr>h_status = ACCEPTED, h_timestamp = now st,
               h_note = AcceptedViaQueue (currentIndex q + 1) (length (mechanics q))\<rparr>])"
      using assms(2) Some True c n
      by (auto simp: handleMechanicAccept_def findOneAndUpdate_accept_eq Let_def snd_andThen
            andThen_def emitToUser_def split: prod.splits outcome.splits)
    then show ?thesis by blast
  qed
qed

lemma handleBookingAccept_unclaimable:
  assumes "\<not> claimableAt st bid"
  shows "bookings (handleBookingAccept mid bid st) = bookings st"
    and "emitted (handleBookingAccept mid bid st) =
           emitted st @ [(ToSocket mid, AcceptAck (AckErr ''Booking no longer available''))]"
proof -
  obtain e st1 where h: "handleMechanicAccept bid mid st = (Returned (Failure e), st1)"
    and b: "bookings st1 = bookings st" and em: "emitted st1 = emitted st"
    using handleMechanicAccept_unclaimable [OF assms, of mid] by blast
  have nc: "\<not> claimableAt st1 bid" using assms b by (simp add: claimableAt_def)
  show "bookings (handleBookingAccept mid bid st) = bookings st"
    by (simp add: handleBookingAccept_def h findOneAndUpdate_accept_eq nc socket_emit_def b)
  show "emitted (handleBookingAccept mid bid st) =
           emitted st @ [(ToSocket mid, AcceptAck (AckErr ''Booking no longer available''))]"
    by (simp add: handleBookingAccept_def h findOneAndUpdate_accept_eq nc socket_emit_def em)
qed

lemma handleBookingAccept_claimable:
  assumes "claimableAt st bid"
  shows "\<exists>pushed. bookings (handleBookingAccept mid bid st) =
           (bookings st)(bid \<mapsto> claimed (the (bookings st bid)) mid (now st) pushed)"
proof -
  obtain r st1 where h: "handleMechanicAccept bid mid st = (r, st1)"
    by (cases "handleMechanicAccept bid mid st")
  from handleMechanicAccept_claimable [OF assms h]
  show ?thesis
  proof
    assume "\<exists>e. r = Returned (Failure e) \<and> bookings st1 = bookings st \<and> now st1 = now st"
    then obtain e where r: "r = Returned (Failure e)" and b: "bookings st1 = bookings st"
      and n: "now st1 = now st" by blast
    have c: "claimableAt st1 bid" using assms b by (simp add: claimableAt_def)
    have "bookings (handleBookingAccept mid bid st) =
            (bookings st)(bid \<mapsto> claimed (the (bookings st bid)) mid (now st) [])"
      by (simp add: handleBookingAccept_def h r findOneAndUpdate_accept_eq c socket_emit_def
            emitToUser_def b n)
    then show ?thesis by blast
  next
    assume a: "(\<forall>e. r \<noteq> Returned (Failure e)) \<and>
       (\<exists>pushed. bookings st1 =
          (bookings st)(bid \<mapsto> claimed (the (bookings st bid)) mid (now st) pushed))"
    then have "bookings (handleBookingAccept mid bid st) = bookings st1"
      by (cases r) (auto simp: handleBookingAccept_def h socket_emit_def split: acceptResult.splits)
    with a show ?thesis by simp
  qed
qed

lemma acceptSucceeds_iff: "acceptSucceeds mid bid st = claimableAt st bid"
proof (cases "claimableAt st bid")
  case False
  then show ?thesis by (simp add: acceptSucceeds_def handleBookingAccept_unclaimable(1))
next
  case True
  then obtain b where b: "bookings st bid = Some b" "claimable b"
    by (auto simp: claimableAt_def split: option.splits)
  obtain pushed where "bookings (handleBookingAccept mid bid st) =
      (bookings st)(bid \<mapsto> claimed (the (bookings st bid)) mid (now st) pushed)"
    using handleBookingAccept_claimable [OF True, of mid] by blast
  then have "bookings (handleBookingAccept mid bid st) bid = Some (claimed b mid (now st) pushed)"
    by (simp add: b)
  moreover have "claimed b mid (now st) pushed \<noteq> b"
    using b(2) not_claimable_claimed by metis
  ultimately show ?thesis using True by (simp add: acceptSucceeds_def b)
qed

lemma writeOk_unclaimable:
  "writeOk old new \<Longrightarrow> (case old of None \<Rightarrow> True | Some b \<Rightarrow> \<not> claimable b)
     \<Longrightarrow> (case new of None \<Rightarrow> True | Some b \<Rightarrow> \<not> claimable b)"
  by (auto simp: writeOk_def split: option.splits)

lemma step_unclaimable: "\<not> claimableAt st bid \<Longrightarrow> \<not> claimableAt (step e st) bid"
  using writeOk_step [of st bid e]
  by (auto simp: claimableAt_def writeOk_def split: option.splits)

lemma acceptWins_unclaimable: "\<not> claimableAt st bid \<Longrightarrow> acceptWins es st bid = 0"
proof (induction es arbitrary: st)
  case Nil
  then show ?case by simp
next
  case (Cons e es)
  have "acceptWins es (step e st) bid = 0"
    using Cons.IH [OF step_unclaimable [OF Cons.prems]] .
  then show ?case using Cons.prems by (simp add: acceptSucceeds_iff split: event.splits)
qed

lemma accept_makes_unclaimable: "\<not> claimableAt (handleBookingAccept mid bid st) bid"
proof (cases "claimableAt st bid")
  case False
  then show ?thesis by (simp add: claimableAt_def handleBookingAccept_unclaimable(1))
next
  case True
  from handleBookingAccept_claimable [OF True, of mid]
  show ?thesis by (auto simp: claimableAt_def)
qed

lemma acceptWins_le_1: "acceptWins es st bid \<le> 1"
proof (induction es arbitrary: st)
  case Nil
  then show ?case by simp
next
  case (Cons e es)
  show ?case
  proof (cases "\<exists>mid. e = BookingAccept mid bid")
    case True
    then obtain mid where e: "e = BookingAccept mid bid" by blast
    have "acceptWins es (step e st) bid = 0"
      using acceptWins_unclaimable [OF accept_makes_unclaimable] by (simp add: e)
    then show ?thesis by (simp add: e)
  next
    case False
    then have "acceptWins (e # es) st bid = acceptWins es (step e st) bid"
      by (cases e) auto
    then show ?thesis using Cons.IH by simp
  qed
qed

lemma emitted_cleanupQueue [simp]: "emitted (snd (cleanupQueue bid st)) = emitted st"
  by (simp add: cleanupQueue_def prim_defs Let_def split: option.splits)

lemma activeQueues_cleanupQueue [simp]:
  "activeQueues (snd (cleanupQueue bid st)) = (activeQueues st)(bid := None)"
  by (simp add: cleanupQueue_def prim_defs Let_def split: option.splits)

lemma bookings_markNoMechanic:
  "bookings (markNoMechanic bid st) k =
     (if k = bid
      then map_option (\<lambda>b. b\<lparr>status := NO_MECHANIC_AVAILABLE,
                               statusHistory := statusHistory b @
                                 [\<lparr>h_status = NO_MECHANIC_AVAILABLE, h_timestamp = now st,
                                   h_note = NoMechanicsOrAllDeclined\<rparr>]\<rparr>) (bookings st bid)
      else bookings st k)"
  by (simp add: markNoMechanic_def split: option.splits)

lemma frame_markNoMechanic [simp]:
  "emitted (markNoMechanic bid st) = emitted st"
  "activeQueues (markNoMechanic bid st) = activeQueues st"
  "timers (markNoMechanic bid st) = timers st"
  "redis (markNoMechanic bid st) = redis st"
  "now (markNoMechanic bid st) = now st"
  by (simp_all add: markNoMechanic_def split: option.splits)

lemma handleNoMechanicsAvailable_effect:
  "bookings (snd (handleNoMechanicsAvailable b st)) = bookings (markNoMechanic (b_id b) st)"
  "emitted (snd (handleNoMechanicsAvailable b st)) =
     emitted st @ [(ToUser (userId b), BookingNoMechanic (b_id b))]"
  "activeQueues (snd (handleNoMechanicsAvailable b st)) = (activeQueues st)(b_id b := None)"
  by (simp_all add: handleNoMechanicsAvailable_def Let_def emitToUser_def)

lemma redis_cleanupQueue:
  "redis (snd (cleanupQueue bid st)) =
     map_option (\<lambda>store. AList.delete (''booking:queue:current:'' @ bid)
                            (AList.delete (''booking:queue:'' @ bid) store)) (redis st)"
  by (simp add: cleanupQueue_def prim_defs Let_def split: option.splits)

lemma redis_handleNoMechanicsAvailable:
  "redis (snd (handleNoMechanicsAvailable b st)) =
     map_option (\<lambda>store. AList.delete (''booking:queue:current:'' @ b_id b)
                            (AList.delete (''booking:queue:'' @ b_id b) store)) (redis st)"
  by (simp add: handleNoMechanicsAvailable_def Let_def emitToUser_def redis_cleanupQueue)

lemma sendToNextMechanic_offer_queue:
  assumes "activeQueues st bid = Some q" and "currentIndex q < length (mechanics q)"
  shows "activeQueues (snd (sendToNextMechanic bid st)) bid =
           Some (q\<lparr>timer := (case redis st of None \<Rightarrow> timer q | Some _ \<Rightarrow> Some (nextTimer st))\<rparr>)"
  using assms
  by (simp add: sendToNextMechanic_def Let_def snd_andThen redis_set_def emitToMechanic_def
        notifyUserQueueStatus_def emitToUser_def startTimeout_def clearTimerOf_def clearTimeout_def
        split: option.splits)

lemma skipToNextMechanic_exhausts:
  assumes "activeQueues st bid = Some q" and "length (mechanics q) \<le> Suc (currentIndex q)"
    and "b_id (q_booking q) = bid"
  shows "bookings (snd (skipToNextMechanic bid reason st)) = bookings (markNoMechanic bid st)"
    and "emitted (snd (skipToNextMechanic bid reason st)) =
          emitted st @
          (case currentMechanic q of
             Some cur \<Rightarrow> [(ToMechanic (mech_id cur),
                           BookingTimeout bid (if reason = ''timeout'' then ''Time expired''
                                               else ''Moved to next mechanic''))]
           | None \<Rightarrow> []) @
          [(ToUser (userId (q_booking q)), BookingNoMechanic bid)]"
    and "activeQueues (snd (skipToNextMechanic bid reason st)) = (activeQueues st)(bid := None)"
    and "redis (snd (skipToNextMechanic bid reason st)) = Some store \<Longrightarrow>
           map_of store (''booking:queue:'' @ bid) = None"
proof -
  define q' where "q' = q\<lparr>timer := None, currentIndex := currentIndex q + 1\<rparr>"
  define st2 where "st2 = (case currentMechanic q of
                        Some cur \<Rightarrow>
                          emitToMechanic (mech_id cur)
                            (BookingTimeout bid
                               (if reason = ''timeout'' then ''Time expired''
                                else ''Moved to next mechanic'')) (clearTimerOf q st)
                      | None \<Rightarrow> clearTimerOf q st)"
  define st4 where "st4 = saveQueueToRedis bid q' (st2\<lparr>activeQueues := (activeQueues st2)(bid \<mapsto> q')\<rparr>)"
  have skip: "skipToNextMechanic bid reason st = sendToNextMechanic bid st4"
    using assms(1) by (simp add: skipToNextMechanic_def Let_def st4_def st2_def q'_def)
  have f2: "bookings st2 = bookings st" "activeQueues st2 = activeQueues st" "now st2 = now st"
    "emitted st2 = emitted st @
          (case currentMechanic q of
             Some cur \<Rightarrow> [(ToMechanic (mech_id cur),
                           BookingTimeout bid (if reason = ''timeout'' then ''Time expired''
                                               else ''Moved to next mechanic''))]
           | None \<Rightarrow> [])"
    by (simp_all add: st2_def clearTimerOf_def clearTimeout_def emitToMechanic_def split: option.splits)
  have f4: "bookings st4 = bookings st" "activeQueues st4 = (activeQueues st)(bid \<mapsto> q')"
    "emitted st4 = emitted st2" "now st4 = now st"
    using f2 by (simp_all add: st4_def saveQueueToRedis_def redis_set_def split: option.splits)
  have send: "sendToNextMechanic bid st4 = handleNoMechanicsAvailable (q_booking q) st4"
    using assms(2) f4(2) by (simp add: sendToNextMechanic_def q'_def)
  show "bookings (snd (skipToNextMechanic bid reason st)) = bookings (markNoMechanic bid st)"
    using f4 assms(3)
    by (simp add: skip send handleNoMechanicsAvailable_effect markNoMechanic_def split: option.splits)
  show "emitted (snd (skipToNextMechanic bid reason st)) =
          emitted st @
          (case currentMechanic q of
             Some cur \<Rightarrow> [(ToMechanic (mech_id cur),
                           BookingTimeout bid (if reason = ''timeout'' then ''Time expired''
                                               else ''Moved to next mechanic''))]
           | None \<Rightarrow> []) @
          [(ToUser (userId (q_booking q)), BookingNoMechanic bid)]"
    using f4 f2 assms(3) by (simp add: skip send handleNoMechanicsAvailable_effect)
  show "activeQueues (snd (skipToNextMechanic bid reason st)) = (activeQueues st)(bid := None)"
    using f4 assms(3) by (simp add: skip send handleNoMechanicsAvailable_effect)
  show "map_of store (''booking:queue:'' @ bid) = None"
    if "redis (snd (skipToNextMechanic bid reason st)) = Some store"
    using that assms(3)
    by (auto simp: skip send redis_handleNoMechanicsAvailable AList.delete_conv')
qed

lemma statusWriteOk_of_writeOk:
  "writeOk old new \<Longrightarrow> statusWriteOk (map_option status old) (map_option status new)"
  by (auto simp: writeOk_def statusWriteOk_def claimable_def split: option.splits)

section \<open>Effects of the handlers on queues and offers\<close>

lemma sendToNextMechanic_offers:
  assumes "activeQueues st bid = Some q" and "currentIndex q < length (mechanics q)"
    and "redis st = Some store"
  shows "sendToNextMechanic bid st =
     (Returned (),
      st\<lparr>activeQueues := (activeQueues st)(bid \<mapsto> q\<lparr>timer := Some (nextTimer st)\<rparr>),
         redis := Some (AList.update (''booking:queue:current:'' @ bid)
                    (CurrentOffer (mech_id (mechanics q ! currentIndex q)) (now st)
                       (now st + 10000), 15) store),
         timers := (case timer q of Some t \<Rightarrow> (timers st)(t := None) | None \<Rightarrow> timers st)
                     (nextTimer st \<mapsto> bid),
         nextTimer := Suc (nextTimer st),
         emitted := emitted st @
           [(ToMechanic (mech_id (mechanics q ! currentIndex q)),
             BookingNew (b_id (q_booking q)) (distance (mechanics q ! currentIndex q)) 10),
            (ToUser (userId (q_booking q)),
             QueueStatus bid ''REQUESTING'' (length (mechanics q)) (Suc (currentIndex q)))]\<rparr>)"
  using assms
  by (cases "timer q") (simp_all add: engine_defs)

lemma skipToNextMechanic_offers:
  assumes "activeQueues st bid = Some q" and "Suc (currentIndex q) < length (mechanics q)"
    and "redis st = Some store"
  shows "skipToNextMechanic bid reason st =
     (Returned (),
      st\<lparr>activeQueues := (activeQueues st)(bid \<mapsto>
            q\<lparr>timer := Some (nextTimer st), currentIndex := Suc (currentIndex q)\<rparr>),
         redis := Some (AList.update (''booking:queue:current:'' @ bid)
                    (CurrentOffer (mech_id (mechanics q ! Suc (currentIndex q))) (now st)
                       (now st + 10000), 15)
                    (AList.update (''booking:queue:'' @ bid)
                       (QueueSnapshot (mechanics q) (Suc (currentIndex q)) (startedAt q), 600) store)),
         timers := (case timer q of Some t \<Rightarrow> (timers st)(t := None) | None \<Rightarrow> timers st)
                     (nextTimer st \<mapsto> bid),
         nextTimer := Suc (nextTimer st),
         emitted := emitted st @
           [(ToMechanic (mech_id (mechanics q ! currentIndex q)), BookingTimeout bid (withdrawn reason)),
            (ToMechanic (mech_id (mechanics q ! Suc (currentIndex q))),
             BookingNew (b_id (q_booking q)) (distance (mechanics q ! Suc (currentIndex q))) 10),
            (ToUser (userId (q_booking q)),
             QueueStatus bid ''REQUESTING'' (length (mechanics q)) (Suc (Suc (currentIndex q))))]\<rparr>)"
proof -
  define q' where "q' = q\<lparr>timer := None, currentIndex := currentIndex q + 1\<rparr>"
  define st4 where "st4 = st\<lparr>activeQueues := (activeQueues st)(bid \<mapsto> q'),
         redis := Some (AList.update (''booking:queue:'' @ bid)
                       (QueueSnapshot (mechanics q) (Suc (currentIndex q)) (startedAt q), 600) store),
         timers := (case timer q of Some t \<Rightarrow> (timers st)(t := None) | None \<Rightarrow> timers st),
         emitted := emitted st @
           [(ToMechanic (mech_id (mechanics q ! currentIndex q)), BookingTimeout bid (withdrawn reason))]\<rparr>"
  have cur: "currentMechanic q = Some (mechanics q ! currentIndex q)"
    using assms(2) by (simp add: currentMechanic_def)
  have "saveQueueToRedis bid q'
          ((case currentMechanic q of
              Some cur \<Rightarrow>
                emitToMechanic (mech_id cur)
                  (BookingTimeout bid
                     (if reason = ''timeout'' then ''Time expired''
                      else ''Moved to next mechanic'')) (clearTimerOf q st)
            | None \<Rightarrow> clearTimerOf q st)
           \<lparr>activeQueues := (activeQueues
              (case currentMechanic q of
                 Some cur \<Rightarrow>
                   emitToMechanic (mech_id cur)
                     (BookingTimeout bid
                        (if reason = ''timeout'' then ''Time expired''
                         else ''Moved to next mechanic'')) (clearTimerOf q st)
               | None \<Rightarrow> clearTimerOf q st))(bid \<mapsto> q')\<rparr>) = st4"
    using assms(3) cur
    by (cases "timer q")
       (auto intro!: state.equality simp: st4_def q'_def prim_defs withdrawn_def)
  then have skip: "skipToNextMechanic bid reason st = sendToNextMechanic bid st4"
    using assms(1) by (simp add: skipToNextMechanic_def Let_def q'_def)
  have a4: "activeQueues st4 bid = Some q'" "currentIndex q' < length (mechanics q')"
    "redis st4 = Some (AList.update (''booking:queue:'' @ bid)
                       (QueueSnapshot (mechanics q) (Suc (currentIndex q)) (startedAt q), 600) store)"
    using assms(2) by (simp_all add: st4_def q'_def)
  have t4: "timer q' = None" "nextTimer st4 = nextTimer st" "now st4 = now st"
    by (simp_all add: st4_def q'_def)
  show ?thesis
    unfolding skip sendToNextMechanic_offers [OF a4]
    by (auto intro!: state.equality simp: st4_def q'_def)
qed

lemma queue_key_neq: "''booking:queue:current:'' @ bid \<noteq> ''booking:queue:'' @ bid"
proof -
  have "length (''current:'' @ bid) \<noteq> length bid" by simp
  then have "''current:'' @ bid \<noteq> bid" by metis
  then show ?thesis by simp
qed

lemma skipToNextMechanic_advances:
  assumes "activeQueues st1 bid = Some q" and "Suc (currentIndex q) < length (mechanics q)"
    and "redis st1 = Some store" and "nextTimer st1 = nextTimer st" and "emitted st1 = emitted st"
  shows "fst (skipToNextMechanic bid reason st1) = Returned ()"
    and "advancedFrom bid q reason st (snd (skipToNextMechanic bid reason st1))"
proof -
  note eq = skipToNextMechanic_offers [OF assms(1,2,3), of reason]
  show "fst (skipToNextMechanic bid reason st1) = Returned ()" by (simp add: eq)
  have k: "map_of (AList.update (''booking:queue:current:'' @ bid) v
             (AList.update (''booking:queue:'' @ bid) w store)) (''booking:queue:'' @ bid) = Some w"
    for v w
    using queue_key_neq [of bid] by (simp add: AList.update_conv' del: append.simps)
  show "advancedFrom bid q reason st (snd (skipToNextMechanic bid reason st1))"
    unfolding eq advancedFrom_def
    using assms(4,5) k
    by (simp add: advanceEmits_def withdrawn_def TIMEOUT_SECONDS_def split: option.splits
             del: append.simps map_of.simps)
qed

lemma offerHolders_snoc [simp]:
  "offerHolders (log @ [e]) bid = offerUpd bid e (offerHolders log bid)"
  by (simp add: offerHolders_def)

lemma offerHolders_append:
  "offerHolders (log @ new) bid = fold (offerUpd bid) new (offerHolders log bid)"
  by (simp add: offerHolders_def)

lemma cleanupQueue_abs:
  "vq (snd (cleanupQueue k st)) bid = (if bid = k then None else vq st bid)"
  "OH (snd (cleanupQueue k st)) bid = OH st bid"
  by (simp_all add: vq_def OH_def)

lemma handleNoMechanicsAvailable_abs:
  "vq (snd (handleNoMechanicsAvailable b st)) bid = (if bid = b_id b then None else vq st bid)"
  "OH (snd (handleNoMechanicsAvailable b st)) bid = (if bid = b_id b then {} else OH st bid)"
  by (simp_all add: vq_def OH_def handleNoMechanicsAvailable_effect)

lemma sendToNextMechanic_emitted:
  assumes "activeQueues st k = Some q" and "currentIndex q < length (mechanics q)"
  shows "emitted (snd (sendToNextMechanic k st)) =
           emitted st @
           (ToMechanic (mech_id (mechanics q ! currentIndex q)),
            BookingNew (b_id (q_booking q)) (distance (mechanics q ! currentIndex q)) 10) #
           (case redis st of
              None \<Rightarrow> []
            | Some _ \<Rightarrow> [(ToUser (userId (q_booking q)),
                          QueueStatus k ''REQUESTING'' (length (mechanics q)) (Suc (currentIndex q)))])"
  using assms
  by (cases "redis st"; cases "timer q") (simp_all add: engine_defs)

lemma sendToNextMechanic_abs:
  assumes "activeQueues st k = Some q" and "b_id (q_booking q) = k"
  shows "vq (snd (sendToNextMechanic k st)) bid =
           (if bid = k \<and> length (mechanics q) \<le> currentIndex q then None else vq st bid)"
    and "OH (snd (sendToNextMechanic k st)) bid =
           (if bid \<noteq> k then OH st bid
            else if length (mechanics q) \<le> currentIndex q then {}
            else insert (mech_id (mechanics q ! currentIndex q)) (OH st bid))"
proof -
  show "vq (snd (sendToNextMechanic k st)) bid =
           (if bid = k \<and> length (mechanics q) \<le> currentIndex q then None else vq st bid)"
  proof (cases "length (mechanics q) \<le> currentIndex q")
    case True
    then have "sendToNextMechanic k st = handleNoMechanicsAvailable (q_booking q) st"
      using assms(1) by (simp add: sendToNextMechanic_def)
    then show ?thesis using True assms(2) by (simp add: handleNoMechanicsAvailable_abs)
  next
    case False
    then have lt: "currentIndex q < length (mechanics q)" by simp
    show ?thesis
      using sendToNextMechanic_offer_queue [OF assms(1) lt] False assms(1)
      by (cases "bid = k")
         (simp_all add: vq_def noTimer_def sendToNextMechanic_def Let_def snd_andThen redis_set_def
            emitToMechanic_def notifyUserQueueStatus_def emitToUser_def startTimeout_def
            clearTimerOf_def clearTimeout_def split: option.splits)
  qed
  show "OH (snd (sendToNextMechanic k st)) bid =
           (if bid \<noteq> k then OH st bid
            else if length (mechanics q) \<le> currentIndex q then {}
            else insert (mech_id (mechanics q ! currentIndex q)) (OH st bid))"
  proof (cases "length (mechanics q) \<le> currentIndex q")
    case True
    then have "sendToNextMechanic k st = handleNoMechanicsAvailable (q_booking q) st"
      using assms(1) by (simp add: sendToNextMechanic_def)
    then show ?thesis using True assms(2) by (auto simp: handleNoMechanicsAvailable_abs)
  next
    case False
    then have lt: "currentIndex q < length (mechanics q)" by simp
    show ?thesis
      using False assms(2)
      by (simp add: OH_def sendToNextMechanic_emitted [OF assms(1) lt] offerHolders_append
            split: option.splits)
  qed
qed

lemma sendToNextMechanic_none:
  "activeQueues st k = None \<Longrightarrow> sendToNextMechanic k st = (Returned (), st)"
  by (simp add: sendToNextMechanic_def)

lemma skipToNextMechanic_abs:
  assumes "activeQueues st k = Some q" and "b_id (q_booking q) = k"
  shows "vq (snd (skipToNextMechanic k reason st)) bid =
           (if bid \<noteq> k then vq st bid
            else if length (mechanics q) \<le> Suc (currentIndex q) then None
            else Some (bumped q))"
    and "OH (snd (skipToNextMechanic k reason st)) bid =
           (if bid \<noteq> k then OH st bid
            else if length (mechanics q) \<le> Suc (currentIndex q) then {}
            else insert (mech_id (mechanics q ! Suc (currentIndex q)))
                   (case currentMechanic q of
                      Some cur \<Rightarrow> OH st bid - {mech_id cur}
                    | None \<Rightarrow> OH st bid))"
proof -
  define st2 where "st2 = (case currentMechanic q of
                        Some cur \<Rightarrow>
                          emitToMechanic (mech_id cur)
                            (BookingTimeout k
                               (if reason = ''timeout'' then ''Time expired''
                                else ''Moved to next mechanic'')) (clearTimerOf q st)
                      | None \<Rightarrow> clearTimerOf q st)"
  define st4 where "st4 = saveQueueToRedis k (bumped q) (st2\<lparr>activeQueues := (activeQueues st2)(k \<mapsto> bumped q)\<rparr>)"
  have skip: "skipToNextMechanic k reason st = sendToNextMechanic k st4"
    using assms(1) by (simp add: skipToNextMechanic_def Let_def st4_def st2_def bumped_def)
  have f2: "activeQueues st2 = activeQueues st"
    "emitted st2 = emitted st @
          (case currentMechanic q of
             Some cur \<Rightarrow> [(ToMechanic (mech_id cur),
                           BookingTimeout k (if reason = ''timeout'' then ''Time expired''
                                               else ''Moved to next mechanic''))]
           | None \<Rightarrow> [])"
    by (simp_all add: st2_def clearTimerOf_def clearTimeout_def emitToMechanic_def split: option.splits)
  have f4: "activeQueues st4 = (activeQueues st)(k \<mapsto> bumped q)" "emitted st4 = emitted st2"
    using f2 by (simp_all add: st4_def saveQueueToRedis_def redis_set_def split: option.splits)
  have a4: "activeQueues st4 k = Some (bumped q)" "b_id (q_booking (bumped q)) = k"
    using assms(2) by (simp_all add: f4 bumped_def)
  have v4: "vq st4 bid = (if bid = k then Some (bumped q) else vq st bid)"
    by (simp add: vq_def f4 noTimer_def bumped_def)
  have o4: "OH st4 bid = (if bid = k then (case currentMechanic q of
                      Some cur \<Rightarrow> OH st bid - {mech_id cur}
                    | None \<Rightarrow> OH st bid) else OH st bid)"
    by (simp add: OH_def f4 f2 split: option.splits)
  show "vq (snd (skipToNextMechanic k reason st)) bid =
           (if bid \<noteq> k then vq st bid
            else if length (mechanics q) \<le> Suc (currentIndex q) then None
            else Some (bumped q))"
    unfolding skip sendToNextMechanic_abs(1) [OF a4] v4
    by (simp add: bumped_def)
  show "OH (snd (skipToNextMechanic k reason st)) bid =
           (if bid \<noteq> k then OH st bid
            else if length (mechanics q) \<le> Suc (currentIndex q) then {}
            else insert (mech_id (mechanics q ! Suc (currentIndex q)))
                   (case currentMechanic q of
                      Some cur \<Rightarrow> OH st bid - {mech_id cur}
                    | None \<Rightarrow> OH st bid))"
    unfolding skip sendToNextMechanic_abs(2) [OF a4] o4
    by (simp add: bumped_def)
qed

lemma skipToNextMechanic_none:
  "activeQueues st k = None \<Longrightarrow> skipToNextMechanic k reason st = (Returned (), st)"
  by (simp add: skipToNextMechanic_def)


lemma skip_abs:
  assumes "wfQueues st"
  shows "vq (snd (skipToNextMechanic k reason st)) bid = advVq st k bid"
    and "OH (snd (skipToNextMechanic k reason st)) bid = advOH st k bid"
proof -
  show "vq (snd (skipToNextMechanic k reason st)) bid = advVq st k bid"
  proof (cases "activeQueues st k")
    case None
    then show ?thesis by (simp add: skipToNextMechanic_none advVq_def)
  next
    case (Some q)
    then have "b_id (q_booking q) = k" using assms by (simp add: wfQueues_def)
    from skipToNextMechanic_abs(1) [OF Some this] show ?thesis by (simp add: advVq_def Some)
  qed
  show "OH (snd (skipToNextMechanic k reason st)) bid = advOH st k bid"
  proof (cases "activeQueues st k")
    case None
    then show ?thesis by (simp add: skipToNextMechanic_none advOH_def)
  next
    case (Some q)
    then have "b_id (q_booking q) = k" using assms by (simp add: wfQueues_def)
    from skipToNextMechanic_abs(2) [OF Some this] show ?thesis by (simp add: advOH_def Some)
  qed
qed

lemma abs_frame:
  assumes "activeQueues st1 = activeQueues st" and "emitted st1 = emitted st"
  shows "vq st1 = vq st" "OH st1 = OH st" "wfQueues st1 = wfQueues st"
    "advVq st1 = advVq st" "advOH st1 = advOH st"
proof -
  show v: "vq st1 = vq st" by (rule ext) (simp add: vq_def assms)
  show o: "OH st1 = OH st" by (rule ext) (simp add: OH_def assms)
  show "wfQueues st1 = wfQueues st" by (simp add: wfQueues_def assms)
  show "advVq st1 = advVq st" by (intro ext) (simp add: advVq_def assms v split: option.splits)
  show "advOH st1 = advOH st" by (intro ext) (simp add: advOH_def assms o split: option.splits)
qed

lemma handleMechanicReject_abs:
  assumes "wfQueues st"
  shows "(vq (snd (handleMechanicReject k mid r st)) bid = vq st bid \<and>
          OH (snd (handleMechanicReject k mid r st)) bid = OH st bid) \<or>
         (vq (snd (handleMechanicReject k mid r st)) bid = advVq st k bid \<and>
          OH (snd (handleMechanicReject k mid r st)) bid = advOH st k bid)"
proof (cases "\<exists>q. activeQueues st k = Some q \<and> isCurrent q mid \<and> redis st \<noteq> None")
  case False
  then have "snd (handleMechanicReject k mid r st) = st"
    by (auto simp: handleMechanicReject_def redis_set_def andThen_def Let_def split: option.splits)
  then show ?thesis by simp
next
  case True
  then obtain q store where q: "activeQueues st k = Some q" "isCurrent q mid" "redis st = Some store"
    by auto
  define reason where "reason = (case r of None \<Rightarrow> ''rejected'' | Some x \<Rightarrow> x)"
  define st1 where "st1 = st\<lparr>redis := Some (AList.update (''booking:reject:'' @ k @ '':'' @ mid)
                                  (RejectRecord reason (now st), 3600) store)\<rparr>"
  have h: "handleMechanicReject k mid r st = skipToNextMechanic k reason st1"
    using q by (simp add: handleMechanicReject_def redis_set_def andThen_def reason_def st1_def Let_def)
  have fr: "activeQueues st1 = activeQueues st" "emitted st1 = emitted st" by (simp_all add: st1_def)
  have wf1: "wfQueues st1" using assms abs_frame(3) [OF fr] by simp
  show ?thesis
    unfolding h skip_abs [OF wf1] abs_frame(4,5) [OF fr] by simp
qed

lemma fireTimer_abs:
  assumes "wfQueues st"
  shows "(vq (snd (fireTimer t st)) bid = vq st bid \<and> OH (snd (fireTimer t st)) bid = OH st bid) \<or>
         (\<exists>k. vq (snd (fireTimer t st)) bid = advVq st k bid \<and>
               OH (snd (fireTimer t st)) bid = advOH st k bid)"
proof (cases "timers st t")
  case None
  then show ?thesis by (simp add: fireTimer_def)
next
  case (Some k)
  define st1 where "st1 = st\<lparr>timers := (timers st)(t := None)\<rparr>"
  have h: "fireTimer t st = skipToNextMechanic k ''timeout'' st1"
    using Some by (simp add: fireTimer_def st1_def)
  have fr: "activeQueues st1 = activeQueues st" "emitted st1 = emitted st" by (simp_all add: st1_def)
  have wf1: "wfQueues st1" using assms abs_frame(3) [OF fr] by simp
  show ?thesis
    unfolding h skip_abs [OF wf1] abs_frame(4,5) [OF fr] by blast
qed

lemma frame_fold_cancelled [simp]:
  "activeQueues (fold (\<lambda>m. emitToMechanic (f m) (BookingCancelled k r)) ms st) = activeQueues st"
  "OH (fold (\<lambda>m. emitToMechanic (f m) (BookingCancelled k r)) ms st) bid = OH st bid"
  by (induction ms arbitrary: st) (simp_all add: emitToMechanic_def OH_def)

lemma handleMechanicAccept_abs:
  "(vq (snd (handleMechanicAccept k mid st)) bid = vq st bid \<and>
    OH (snd (handleMechanicAccept k mid st)) bid = OH st bid \<and>
    (\<exists>e. fst (handleMechanicAccept k mid st) = Returned (Failure e))) \<or>
   (vq (snd (handleMechanicAccept k mid st)) bid = (if bid = k then None else vq st bid) \<and>
    OH (snd (handleMechanicAccept k mid st)) bid = (if bid = k then {} else OH st bid) \<and>
    (\<forall>e. fst (handleMechanicAccept k mid st) \<noteq> Returned (Failure e)))"
proof (cases "\<exists>q. activeQueues st k = Some q \<and> isCurrent q mid")
  case False
  then have "(\<exists>e. handleMechanicAccept k mid st = (Returned (Failure e), st))"
    by (auto simp: handleMechanicAccept_def split: option.splits)
  then show ?thesis by auto
next
  case True
  then obtain q where q: "activeQueues st k = Some q" "isCurrent q mid" by auto
  define st1 where "st1 = clearTimerOf q st"
  have fr: "activeQueues st1 = activeQueues st" "emitted st1 = emitted st"
    by (simp_all add: st1_def clearTimerOf_def clearTimeout_def split: option.splits)
  show ?thesis
  proof (cases "claimableAt st1 k")
    case False
    then have "handleMechanicAccept k mid st = (Returned (Failure ''Booking no longer available''), st1)"
      using q by (simp add: handleMechanicAccept_def findOneAndUpdate_accept_eq st1_def)
    then show ?thesis using abs_frame(1,2) [OF fr] by simp
  next
    case True
    define b' where "b' = claimed (the (bookings st1 k)) mid (now st1)
                   [\<lparr>h_status = ACCEPTED, h_timestamp = now st1,
                     h_note = AcceptedViaQueue (currentIndex q + 1) (length (mechanics q))\<rparr>]"
    define st4 where "st4 = fold (\<lambda>m. emitToMechanic (mech_id m)
                                           (BookingCancelled k ''Accepted by another mechanic''))
                                 (drop (currentIndex q + 1) (mechanics q))
                                 (emitToUser (userId (q_booking q)) (BookingAccepted k mid)
                                    (st1\<lparr>bookings := (bookings st1)(k \<mapsto> b')\<rparr>))"
    have h: "handleMechanicAccept k mid st =
               andThen (cleanupQueue k st4) (\<lambda>_ st5. (Returned (Success b'), st5))"
      using q True
      by (simp add: handleMechanicAccept_def findOneAndUpdate_accept_eq st1_def [symmetric]
            Let_def b'_def st4_def)
    have s: "snd (handleMechanicAccept k mid st) = snd (cleanupQueue k st4)"
      unfolding h by (simp add: snd_andThen split: outcome.splits)
    have f: "\<forall>e. fst (handleMechanicAccept k mid st) \<noteq> Returned (Failure e)"
      unfolding h by (cases "cleanupQueue k st4"; cases "fst (cleanupQueue k st4)")
                     (auto simp: andThen_def)
    have a4: "activeQueues st4 = activeQueues st"
      by (simp add: st4_def emitToUser_def fr)
    have o4: "OH st4 bid = (if bid = k then {} else OH st bid)"
      by (simp add: st4_def) (simp add: OH_def emitToUser_def fr)
    have "vq (snd (handleMechanicAccept k mid st)) bid = (if bid = k then None else vq st bid)"
      unfolding s cleanupQueue_abs by (simp add: vq_def a4)
    moreover have "OH (snd (handleMechanicAccept k mid st)) bid = (if bid = k then {} else OH st bid)"
      unfolding s cleanupQueue_abs o4 ..
    ultimately show ?thesis using f by blast
  qed
qed

lemma handleBookingAccept_abs:
  "OH (handleBookingAccept mid k st) bid \<subseteq> OH st bid \<and>
   (vq (handleBookingAccept mid k st) bid = vq st bid \<or>
    (vq (handleBookingAccept mid k st) bid = None \<and> OH (handleBookingAccept mid k st) bid = {}))"
proof -
  obtain r st1 where h: "handleMechanicAccept k mid st = (r, st1)"
    by (cases "handleMechanicAccept k mid st")
  from handleMechanicAccept_abs [of k mid st bid]
  show ?thesis
  proof
    assume "vq (snd (handleMechanicAccept k mid st)) bid = vq st bid \<and>
      OH (snd (handleMechanicAccept k mid st)) bid = OH st bid \<and>
      (\<exists>e. fst (handleMechanicAccept k mid st) = Returned (Failure e))"
    then obtain e where a: "vq st1 bid = vq st bid" "OH st1 bid = OH st bid" "r = Returned (Failure e)"
      by (auto simp: h)
    have "vq (handleBookingAccept mid k st) bid = vq st1 bid \<and>
          OH (handleBookingAccept mid k st) bid \<subseteq> OH st1 bid"
      by (auto simp: handleBookingAccept_def h a(3) findOneAndUpdate_accept_eq vq_def OH_def
            socket_emit_def emitToUser_def offerHolders_append simp del: offerHolders_snoc)
    then show ?thesis using a by simp
  next
    assume "vq (snd (handleMechanicAccept k mid st)) bid = (if bid = k then None else vq st bid) \<and>
      OH (snd (handleMechanicAccept k mid st)) bid = (if bid = k then {} else OH st bid) \<and>
      (\<forall>e. fst (handleMechanicAccept k mid st) \<noteq> Returned (Failure e))"
    then have a: "vq st1 bid = (if bid = k then None else vq st bid)"
      "OH st1 bid = (if bid = k then {} else OH st bid)" "\<forall>e. r \<noteq> Returned (Failure e)"
      by (auto simp: h)
    have "vq (handleBookingAccept mid k st) bid = vq st1 bid \<and>
          OH (handleBookingAccept mid k st) bid = OH st1 bid"
      using a(3)
      by (cases r)
         (auto simp: handleBookingAccept_def h vq_def OH_def socket_emit_def
               split: acceptResult.splits)
    then show ?thesis using a by auto
  qed
qed

lemma handleBookingReject_abs:
  assumes "wfQueues st"
  shows "(vq (handleBookingReject mid k r st) bid = vq st bid \<and>
          OH (handleBookingReject mid k r st) bid = OH st bid) \<or>
         (vq (handleBookingReject mid k r st) bid = advVq st k bid \<and>
          OH (handleBookingReject mid k r st) bid = advOH st k bid)"
proof -
  have "vq (handleBookingReject mid k r st) bid = vq (snd (handleMechanicReject k mid r st)) bid \<and>
        OH (handleBookingReject mid k r st) bid = OH (snd (handleMechanicReject k mid r st)) bid"
    by (cases "handleMechanicReject k mid r st")
       (auto simp: handleBookingReject_def socket_emit_def vq_def OH_def split: outcome.splits)
  then show ?thesis using handleMechanicReject_abs [OF assms, of k mid r bid] by simp
qed

lemma startQueue_abs:
  assumes "ms \<noteq> []"
  shows "vq (snd (startQueue b ms st)) bid =
           (if bid = b_id b
            then Some \<lparr>bookingId = b_id b, q_booking = b, mechanics = map toQueueMechanic ms,
                       currentIndex = 0, startedAt = now st, timer = None\<rparr>
            else vq st bid)"
    and "OH (snd (startQueue b ms st)) bid =
           (if bid = b_id b then insert (mech_id (toQueueMechanic (hd ms))) (OH st bid)
            else OH st bid)"
proof -
  define q where "q = \<lparr>bookingId = b_id b, q_booking = b, mechanics = map toQueueMechanic ms,
                       currentIndex = 0, startedAt = now st, timer = None\<rparr>"
  define st2 where "st2 = saveQueueToRedis (b_id b) q (st\<lparr>activeQueues := (activeQueues st)(b_id b \<mapsto> q)\<rparr>)"
  have a2: "activeQueues st2 (b_id b) = Some q" "b_id (q_booking q) = b_id b"
    "activeQueues st2 = (activeQueues st)(b_id b \<mapsto> q)" "emitted st2 = emitted st"
    by (simp_all add: st2_def q_def saveQueueToRedis_def redis_set_def split: option.splits)
  have v2: "vq st2 bid = (if bid = b_id b then Some q else vq st bid)"
    by (simp add: vq_def a2(3)) (simp add: q_def noTimer_def)
  have o2: "OH st2 bid = OH st bid" by (simp add: OH_def a2(4))
  have "vq (snd (startQueue b ms st)) bid = vq (snd (sendToNextMechanic (b_id b) st2)) bid \<and>
        OH (snd (startQueue b ms st)) bid = OH (snd (sendToNextMechanic (b_id b) st2)) bid"
    using assms
    by (simp add: startQueue_def Let_def snd_andThen q_def [symmetric] st2_def [symmetric]
          notifyUserQueueStatus_def emitToUser_def vq_def OH_def split: outcome.splits)
  then have eq: "vq (snd (startQueue b ms st)) bid = vq (snd (sendToNextMechanic (b_id b) st2)) bid"
    "OH (snd (startQueue b ms st)) bid = OH (snd (sendToNextMechanic (b_id b) st2)) bid"
    by simp_all
  have m: "mechanics q ! currentIndex q = toQueueMechanic (hd ms)" "\<not> length (mechanics q) \<le> currentIndex q"
    using assms by (simp_all add: q_def hd_conv_nth)
  show "vq (snd (startQueue b ms st)) bid =
           (if bid = b_id b
            then Some \<lparr>bookingId = b_id b, q_booking = b, mechanics = map toQueueMechanic ms,
                       currentIndex = 0, startedAt = now st, timer = None\<rparr>
            else vq st bid)"
    unfolding eq sendToNextMechanic_abs(1) [OF a2(1,2)] v2 using m by (simp add: q_def)
  show "OH (snd (startQueue b ms st)) bid =
           (if bid = b_id b then insert (mech_id (toQueueMechanic (hd ms))) (OH st bid)
            else OH st bid)"
    unfolding eq sendToNextMechanic_abs(2) [OF a2(1,2)] o2 using m by simp
qed

lemma curSet_vq: "curSet (vq st bid) = curSet (activeQueues st bid)"
  by (simp add: curSet_def vq_def noTimer_def currentMechanic_def split: option.splits)

lemma wfQueues_vq: "wfQueues st = (\<forall>k q. vq st k = Some q \<longrightarrow> b_id (q_booking q) = k)"
proof
  assume "wfQueues st"
  then show "\<forall>k q. vq st k = Some q \<longrightarrow> b_id (q_booking q) = k"
    by (auto simp: wfQueues_def vq_def noTimer_def)
next
  assume a: "\<forall>k q. vq st k = Some q \<longrightarrow> b_id (q_booking q) = k"
  show "wfQueues st"
    unfolding wfQueues_def
  proof (intro allI impI)
    fix k q
    assume "activeQueues st k = Some q"
    then have "vq st k = Some (noTimer q)" by (simp add: vq_def)
    with a have "b_id (q_booking (noTimer q)) = k" by blast
    then show "b_id (q_booking q) = k" by (simp add: noTimer_def)
  qed
qed

lemma vq_None [simp]: "(vq st bid = None) = (activeQueues st bid = None)"
  by (simp add: vq_def)

lemma vq_Some: "activeQueues st bid = Some q \<Longrightarrow> vq st bid = Some (noTimer q)"
  by (simp add: vq_def)

lemma bumped_facts [simp]:
  "q_booking (bumped q) = q_booking q" "mechanics (bumped q) = mechanics q"
  "currentIndex (bumped q) = Suc (currentIndex q)" "noTimer (bumped q) = bumped q"
  "q_booking (noTimer q) = q_booking q" "mechanics (noTimer q) = mechanics q"
  "currentIndex (noTimer q) = currentIndex q"
  by (simp_all add: bumped_def noTimer_def)


lemma step_vq:
  assumes "wfQueues st"
  shows "vq (step e st) bid = vq st bid \<or> vq (step e st) bid = None
         \<or> (\<exists>q. activeQueues st bid = Some q \<and> Suc (currentIndex q) < length (mechanics q)
                \<and> vq (step e st) bid = Some (bumped q))
         \<or> (\<exists>b ms. e = CreateBooking b ms \<and> ms \<noteq> [] \<and> bid = b_id b \<and>
                vq (step e st) bid =
                  Some \<lparr>bookingId = b_id b, q_booking = b, mechanics = map toQueueMechanic ms,
                        currentIndex = 0, startedAt = now st, timer = None\<rparr>)"
proof -
  have adv: "advVq st k bid = vq st bid \<or> advVq st k bid = None
         \<or> (\<exists>q. activeQueues st bid = Some q \<and> Suc (currentIndex q) < length (mechanics q)
                \<and> advVq st k bid = Some (bumped q))" for k
    by (auto simp: advVq_def split: option.splits)
  show ?thesis
  proof (cases e)
    case (BookingAccept mid k)
    then show ?thesis using handleBookingAccept_abs [of mid k st bid] by auto
  next
    case (BookingReject mid k r)
    then show ?thesis using handleBookingReject_abs [OF assms, of mid k r bid] adv [of k] by auto
  next
    case (TimerFires t)
    from fireTimer_abs [OF assms, of t bid] show ?thesis
    proof
      assume "vq (snd (fireTimer t st)) bid = vq st bid \<and> OH (snd (fireTimer t st)) bid = OH st bid"
      then show ?thesis using TimerFires by simp
    next
      assume "\<exists>k. vq (snd (fireTimer t st)) bid = advVq st k bid \<and>
                  OH (snd (fireTimer t st)) bid = advOH st k bid"
      then obtain k where "vq (snd (fireTimer t st)) bid = advVq st k bid" by blast
      then show ?thesis using TimerFires adv [of k] by auto
    qed
  next
    case (CreateBooking b ms)
    show ?thesis
    proof (cases "ms = []")
      case True
      then show ?thesis
        using CreateBooking
        by (auto simp: createBooking_dispatch_def handleNoMechanicsAvailable_abs)
    next
      case False
      then show ?thesis
        using CreateBooking startQueue_abs(1) [OF False, of b st bid]
        by (auto simp: createBooking_dispatch_def)
    qed
  qed
qed

lemma step_wfQueues:
  assumes "wfQueues st"
  shows "wfQueues (step e st)"
  unfolding wfQueues_vq
proof (intro allI impI)
  fix k q'
  assume s: "vq (step e st) k = Some q'"
  have a: "\<forall>k q. vq st k = Some q \<longrightarrow> b_id (q_booking q) = k"
    using assms by (simp add: wfQueues_vq)
  consider "vq (step e st) k = vq st k" | "vq (step e st) k = None"
    | q where "activeQueues st k = Some q" "vq (step e st) k = Some (bumped q)"
    | b ms where "k = b_id b"
        "vq (step e st) k =
           Some \<lparr>bookingId = b_id b, q_booking = b, mechanics = map toQueueMechanic ms,
                 currentIndex = 0, startedAt = now st, timer = None\<rparr>"
    using step_vq [OF assms, of e k] by (elim disjE exE conjE) blast+
  then show "b_id (q_booking q') = k"
  proof cases
    case 1
    then show ?thesis using s a by simp
  next
    case 2
    then show ?thesis using s by simp
  next
    case 3
    then have "b_id (q_booking q) = k" using assms by (simp add: wfQueues_def)
    then show ?thesis using 3 s by simp
  next
    case 4
    then have "q' = \<lparr>bookingId = b_id b, q_booking = b, mechanics = map toQueueMechanic ms,
                 currentIndex = 0, startedAt = now st, timer = None\<rparr>"
      using s by simp
    then show ?thesis using 4(1) by simp
  qed
qed





lemma curSet_card: "finite (curSet x) \<and> card (curSet x) \<le> 1"
  by (simp add: curSet_def split: option.splits)

lemma curSet_None [simp]: "curSet None = {}"
  by (simp add: curSet_def)

lemma curSet_Some: "curSet (Some q) = (case currentMechanic q of None \<Rightarrow> {} | Some m \<Rightarrow> {mech_id m})"
  by (simp add: curSet_def)

lemma adv_offerInv:
  assumes "OH st bid \<subseteq> curSet (vq st bid)"
  shows "advOH st k bid \<subseteq> curSet (advVq st k bid)"
proof (cases "activeQueues st k")
  case None
  then show ?thesis using assms by (simp add: advOH_def advVq_def)
next
  case (Some q)
  show ?thesis
  proof (cases "bid = k \<and> Suc (currentIndex q) < length (mechanics q)")
    case False
    then show ?thesis using assms Some by (auto simp: advOH_def advVq_def)
  next
    case True
    then have cur: "currentMechanic q = Some (mechanics q ! currentIndex q)"
      and nxt: "currentMechanic (bumped q) = Some (mechanics q ! Suc (currentIndex q))"
      by (simp_all add: currentMechanic_def)
    have "OH st bid \<subseteq> {mech_id (mechanics q ! currentIndex q)}"
      using assms Some True cur by (simp add: curSet_vq curSet_Some)
    then show ?thesis
      using Some True cur nxt by (auto simp: advOH_def advVq_def curSet_Some)
  qed
qed

lemma step_dispatchInv:
  assumes "dispatchInv st" and "validEvent e st"
  shows "dispatchInv (step e st)"
proof -
  have wf: "wfQueues st" and inv: "\<And>bid. OH st bid \<subseteq> curSet (vq st bid)"
    using assms(1) by (simp_all add: dispatchInv_def OH_def curSet_vq)
  have "OH (step e st) bid \<subseteq> curSet (vq (step e st) bid)" for bid
  proof (cases e)
    case (BookingAccept mid k)
    then show ?thesis
      using handleBookingAccept_abs [of mid k st bid] inv [of bid]
      by auto
  next
    case (BookingReject mid k r)
    then show ?thesis
      using handleBookingReject_abs [OF wf, of mid k r bid] inv [of bid]
        adv_offerInv [OF inv [of bid], of k]
      by auto
  next
    case (TimerFires t)
    then show ?thesis
      using fireTimer_abs [OF wf, of t bid] inv [of bid] adv_offerInv [OF inv [of bid]]
      by (elim disjE exE conjE) simp_all
  next
    case (CreateBooking b ms)
    then have none: "vq st (b_id b) = None" using assms(2) by (simp add: vq_def)
    have empty: "OH st (b_id b) = {}" using inv [of "b_id b"] unfolding none by simp
    show ?thesis
    proof (cases "ms = []")
      case True
      then show ?thesis
        using CreateBooking inv [of bid]
        by (auto simp: createBooking_dispatch_def handleNoMechanicsAvailable_abs)
    next
      case False
      have "currentMechanic \<lparr>bookingId = b_id b, q_booking = b, mechanics = map toQueueMechanic ms,
                       currentIndex = 0, startedAt = now st, timer = None\<rparr>
              = Some (toQueueMechanic (hd ms))"
        using False by (simp add: currentMechanic_def hd_conv_nth)
      then show ?thesis
        using CreateBooking False startQueue_abs [OF False, of b st bid] inv [of bid] empty
        by (auto simp: createBooking_dispatch_def curSet_Some)
    qed
  qed
  then show ?thesis
    using step_wfQueues [OF wf, of e] by (simp add: dispatchInv_def OH_def curSet_vq)
qed

lemma run_dispatchInv:
  "dispatchInv st \<Longrightarrow> validRun es st \<Longrightarrow> dispatchInv (run es st)"
proof (induction es arbitrary: st)
  case Nil
  then show ?case by (simp add: run_def)
next
  case (Cons e es)
  then have "dispatchInv (step e st)" "validRun es (step e st)"
    using step_dispatchInv by simp_all
  then have "dispatchInv (run es (step e st))" by (rule Cons.IH)
  then show ?case by (simp add: run_def)
qed

text \<open>A process starts in a state that satisfies the invariants, and every event keeps
  them.\<close>

lemma startServer_inv:
  "wfQueues (startServer store db clock)"
  "cursorInv (startServer store db clock)"
  "dispatchInv (startServer store db clock)"
  by (simp_all add: wfQueues_def cursorInv_def dispatchInv_def startServer_def offerHolders_def)

lemma run_wfQueues: "wfQueues st \<Longrightarrow> wfQueues (run es st)"
proof (induction es arbitrary: st)
  case Nil
  then show ?case by (simp add: run_def)
next
  case (Cons e es)
  from Cons.IH [OF step_wfQueues [OF Cons.prems]] show ?case by (simp add: run_def)
qed

lemma step_cursorInv:
  assumes "wfQueues st" and "cursorInv st"
  shows "cursorInv (step e st)"
  unfolding cursorInv_def
proof (intro allI impI)
  fix k q'
  assume s: "activeQueues (step e st) k = Some q'"
  then have v: "vq (step e st) k = Some (noTimer q')" by (rule vq_Some)
  consider "vq (step e st) k = vq st k" | "vq (step e st) k = None"
    | q where "activeQueues st k = Some q" "Suc (currentIndex q) < length (mechanics q)"
        "vq (step e st) k = Some (bumped q)"
    | b ms where "ms \<noteq> []"
        "vq (step e st) k =
           Some \<lparr>bookingId = b_id b, q_booking = b, mechanics = map toQueueMechanic ms,
                 currentIndex = 0, startedAt = now st, timer = None\<rparr>"
    using step_vq [OF assms(1), of e k] by (elim disjE exE conjE) blast+
  then show "currentIndex q' < length (mechanics q')"
  proof cases
    case 1
    then obtain q where q: "activeQueues st k = Some q" "noTimer q = noTimer q'"
      using v by (auto simp: vq_def)
    then have "currentIndex q < length (mechanics q)" using assms(2) by (simp add: cursorInv_def)
    moreover have "currentIndex q = currentIndex q'" "mechanics q = mechanics q'"
      using q(2) by (metis bumped_facts(7), metis bumped_facts(6))
    ultimately show ?thesis by simp
  next
    case 2
    then show ?thesis using v by simp
  next
    case 3
    then have "noTimer q' = bumped q" using v by simp
    then have "currentIndex q' = Suc (currentIndex q)" "mechanics q' = mechanics q"
      by (metis bumped_facts(3,7), metis bumped_facts(2,6))
    then show ?thesis using 3(2) by simp
  next
    case 4
    then have "noTimer q' = \<lparr>bookingId = b_id b, q_booking = b, mechanics = map toQueueMechanic ms,
                 currentIndex = 0, startedAt = now st, timer = None\<rparr>"
      using v by simp
    then have "currentIndex q' = 0" "mechanics q' = map toQueueMechanic ms"
      by (metis bumped_facts(7) queueData.select_convs(4), metis bumped_facts(6) queueData.select_convs(3))
    then show ?thesis using 4(1) by simp
  qed
qed

lemma run_cursorInv: "wfQueues st \<Longrightarrow> cursorInv st \<Longrightarrow> cursorInv (run es st)"
proof (induction es arbitrary: st)
  case Nil
  then show ?case by (simp add: run_def)
next
  case (Cons e es)
  from Cons.IH [OF step_wfQueues [OF Cons.prems(1)] step_cursorInv [OF Cons.prems]]
  show ?case by (simp add: run_def)
qed

lemma idle_startServer: "idle = startServer [] [''b1'' \<mapsto> booking1] 5"
  by (simp add: idle_def startServer_def)

section \<open>Acceptance\<close>

text \<open>
  Claim C1. Both accept paths go through the one conditional update: an accept attempt
  turns the booking document into an \<^verbatim>\<open>ACCEPTED\<close> one assigned to the caller if
  the document has status \<^verbatim>\<open>PENDING\<close> or \<^verbatim>\<open>SEARCHING\<close> and no mechanic, and
  leaves it as it is otherwise. In every run of the engine at most one accept attempt on
  a booking succeeds; after a successful attempt no later attempt succeeds, whoever makes
  it and whether or not a queue exists; an attempt that does not succeed is answered
  with \<^verbatim>\<open>Booking no longer available\<close>.
\<close>

theorem at_most_one_acceptance:
  "map_option (\<lambda>b. (status b, mechanicId b)) (bookings (handleBookingAccept mid bid st) bid) =
     map_option (\<lambda>b. if claimable b then (ACCEPTED, Some mid) else (status b, mechanicId b))
       (bookings st bid)
   \<and> acceptWins es st bid \<le> 1
   \<and> (acceptSucceeds mid bid st \<longrightarrow> acceptWins es (handleBookingAccept mid bid st) bid = 0)
   \<and> (\<not> acceptSucceeds mid bid st \<longrightarrow>
        emitted (handleBookingAccept mid bid st) =
          emitted st @ [(ToSocket mid, AcceptAck (AckErr ''Booking no longer available''))])"
proof -
  have 1: "map_option (\<lambda>b. (status b, mechanicId b)) (bookings (handleBookingAccept mid bid st) bid) =
     map_option (\<lambda>b. if claimable b then (ACCEPTED, Some mid) else (status b, mechanicId b))
       (bookings st bid)"
  proof (cases "claimableAt st bid")
    case False
    then show ?thesis
      by (auto simp: handleBookingAccept_unclaimable(1) claimableAt_def split: option.splits)
  next
    case True
    then obtain b where b: "bookings st bid = Some b" "claimable b"
      by (auto simp: claimableAt_def split: option.splits)
    from handleBookingAccept_claimable [OF True, of mid]
    show ?thesis by (auto simp: b claimed_def)
  qed
  have 3: "acceptWins es (handleBookingAccept mid bid st) bid = 0"
    by (rule acceptWins_unclaimable [OF accept_makes_unclaimable])
  show ?thesis
    using 1 3 acceptWins_le_1 [of es st bid]
    by (simp add: acceptSucceeds_iff handleBookingAccept_unclaimable(2))
qed

theorem at_most_one_acceptance_witness:
  "acceptSucceeds ''A'' ''b1'' idle
   \<and> acceptWins [BookingAccept ''B'' ''b1''] (handleBookingAccept ''A'' ''b1'' idle) ''b1'' = 0
   \<and> \<not> acceptSucceeds ''B'' ''b1'' (handleBookingAccept ''A'' ''b1'' idle)
   \<and> emitted (handleBookingAccept ''B'' ''b1'' (handleBookingAccept ''A'' ''b1'' idle)) =
       emitted (handleBookingAccept ''A'' ''b1'' idle) @
         [(ToSocket ''B'', AcceptAck (AckErr ''Booking no longer available''))]"
proof -
  have a: "acceptSucceeds ''A'' ''b1'' idle"
    by (simp add: acceptSucceeds_def idle_def booking1_def engine_defs)
  have b: "\<not> acceptSucceeds ''B'' ''b1'' (handleBookingAccept ''A'' ''b1'' idle)"
    by (simp add: acceptSucceeds_def idle_def booking1_def engine_defs)
  show ?thesis
    using a b
      at_most_one_acceptance [of "''A''" "''b1''" idle "[BookingAccept ''B'' ''b1'']"]
      at_most_one_acceptance [of "''B''" "''b1''" "handleBookingAccept ''A'' ''b1'' idle" "[]"]
    by blast
qed

section \<open>Exclusive offering\<close>

text \<open>
  Claim C2. An offer round (\<^verbatim>\<open>sendToNextMechanic\<close>) on an active queue emits
  \<^verbatim>\<open>booking:new\<close> to the candidate at the cursor and to nobody else, and emits none
  when the cursor is past the last candidate. In every run of a process from its start
  in which queues are started for new bookings only, at most one worker holds an active
  offer for a booking at any time, that worker is the current candidate of the booking's
  queue, and nobody holds one once the queue is gone.
\<close>

theorem exclusive_offer:
  "(activeQueues st bid = Some q \<longrightarrow>
      filter isOffer (drop (length (emitted st)) (emitted (snd (sendToNextMechanic bid st)))) =
        (if currentIndex q < length (mechanics q)
         then [(ToMechanic (mech_id (mechanics q ! currentIndex q)),
                BookingNew (b_id (q_booking q)) (distance (mechanics q ! currentIndex q))
                  TIMEOUT_SECONDS)]
         else []))
   \<and> (validRun es (startServer store db clock) \<longrightarrow>
        card (offerHolders (emitted (run es (startServer store db clock))) k) \<le> 1
        \<and> offerHolders (emitted (run es (startServer store db clock))) k
             \<subseteq> curSet (activeQueues (run es (startServer store db clock)) k))"
proof (intro conjI impI)
  assume q: "activeQueues st bid = Some q"
  show "filter isOffer (drop (length (emitted st)) (emitted (snd (sendToNextMechanic bid st)))) =
        (if currentIndex q < length (mechanics q)
         then [(ToMechanic (mech_id (mechanics q ! currentIndex q)),
                BookingNew (b_id (q_booking q)) (distance (mechanics q ! currentIndex q))
                  TIMEOUT_SECONDS)]
         else [])"
  proof (cases "currentIndex q < length (mechanics q)")
    case True
    show ?thesis
      using True by (simp add: sendToNextMechanic_emitted [OF q True] TIMEOUT_SECONDS_def
                          split: option.splits)
  next
    case False
    then have "sendToNextMechanic bid st = handleNoMechanicsAvailable (q_booking q) st"
      using q by (simp add: sendToNextMechanic_def)
    then show ?thesis using False by (simp add: handleNoMechanicsAvailable_effect)
  qed
next
  define st0 where "st0 = startServer store db clock"
  assume "validRun es (startServer store db clock)"
  then have "dispatchInv (run es st0)"
    using run_dispatchInv [OF startServer_inv(3)] by (simp add: st0_def)
  then have sub: "offerHolders (emitted (run es st0)) k \<subseteq> curSet (activeQueues (run es st0) k)"
    by (simp add: dispatchInv_def)
  then show "offerHolders (emitted (run es (startServer store db clock))) k
             \<subseteq> curSet (activeQueues (run es (startServer store db clock)) k)"
    by (simp add: st0_def)
  have "card (offerHolders (emitted (run es st0)) k) \<le> card (curSet (activeQueues (run es st0) k))"
    using sub curSet_card card_mono by blast
  then show "card (offerHolders (emitted (run es (startServer store db clock))) k) \<le> 1"
    using curSet_card [of "activeQueues (run es st0) k"] by (simp add: st0_def)
qed

theorem exclusive_offer_witness:
  "activeQueues queued ''b1'' = Some queueAB
   \<and> validRun [CreateBooking booking1 [BareId ''A'', BareId ''B''], BookingReject ''A'' ''b1'' None]
        (startServer [] [''b1'' \<mapsto> booking1] 5)
   \<and> filter isOffer (drop (length (emitted queued)) (emitted (snd (sendToNextMechanic ''b1'' queued))))
       = [(ToMechanic ''A'', BookingNew ''b1'' None 10)]
   \<and> offerHolders (emitted (run [CreateBooking booking1 [BareId ''A'', BareId ''B''],
                                  BookingReject ''A'' ''b1'' None]
                               (startServer [] [''b1'' \<mapsto> booking1] 5))) ''b1'' = {''B''}
   \<and> card (offerHolders (emitted (run [CreateBooking booking1 [BareId ''A'', BareId ''B''],
                                  BookingReject ''A'' ''b1'' None]
                               (startServer [] [''b1'' \<mapsto> booking1] 5))) ''b1'') \<le> 1"
proof -
  have a: "activeQueues queued ''b1'' = Some queueAB"
    by (simp add: queued_def queueAB_def idle_def booking1_def engine_defs)
  have v: "validRun [CreateBooking booking1 [BareId ''A'', BareId ''B''],
                     BookingReject ''A'' ''b1'' None] (startServer [] [''b1'' \<mapsto> booking1] 5)"
    by (simp add: startServer_def booking1_def)
  have o: "(if currentIndex queueAB < length (mechanics queueAB)
         then [(ToMechanic (mech_id (mechanics queueAB ! currentIndex queueAB)),
                BookingNew (b_id (q_booking queueAB))
                  (distance (mechanics queueAB ! currentIndex queueAB)) TIMEOUT_SECONDS)]
         else []) = [(ToMechanic ''A'', BookingNew ''b1'' None 10)]"
    by (simp add: queueAB_def booking1_def TIMEOUT_SECONDS_def)
  have h: "offerHolders (emitted (run [CreateBooking booking1 [BareId ''A'', BareId ''B''],
                                  BookingReject ''A'' ''b1'' None]
                               (startServer [] [''b1'' \<mapsto> booking1] 5))) ''b1'' = {''B''}"
    by (simp add: offerHolders_def startServer_def booking1_def engine_defs)
  show ?thesis
    using a v h
      exclusive_offer [of queued "''b1''" queueAB
        "[CreateBooking booking1 [BareId ''A'', BareId ''B''], BookingReject ''A'' ''b1'' None]"
        "[]" "[''b1'' \<mapsto> booking1]" 5 "''b1''"]
    by (simp add: o)
qed

section \<open>Stale accepts\<close>

text \<open>
  Claim C3, at the input where the code departs from it. Candidates A and B are queued
  for booking \<open>b1\<close> and A holds the offer. \<^verbatim>\<open>handleMechanicAccept\<close> answers B with
  \<^verbatim>\<open>Not your turn to accept\<close> and changes nothing; \<^verbatim>\<open>handleBookingAccept\<close> takes
  that answer into its fallback branch, whose conditional update matches: the booking is
  \<^verbatim>\<open>ACCEPTED\<close> by B and B is acknowledged with the booking.
\<close>

theorem stale_accept_takes_fallback:
  "map_option (\<lambda>q. map mech_id (mechanics q) ! currentIndex q) (activeQueues queued ''b1'') = Some ''A''
   \<and> handleMechanicAccept ''b1'' ''B'' queued = (Returned (Failure ''Not your turn to accept''), queued)
   \<and> map_option (\<lambda>b. (status b, mechanicId b)) (bookings (handleBookingAccept ''B'' ''b1'' queued) ''b1'')
       = Some (ACCEPTED, Some ''B'')
   \<and> last (emitted (handleBookingAccept ''B'' ''b1'' queued)) =
       (ToSocket ''B'', AcceptAck (AckBooking (claimed booking1 ''B'' 5 [])))"
  by (simp add: queued_def idle_def booking1_def claimed_def engine_defs)

text \<open>The queue service alone does reject every accept of a mechanic who is not the
  current candidate, without a change of state.\<close>

lemma handleMechanicAccept_not_current:
  "activeQueues st bid = Some q \<Longrightarrow> \<not> isCurrent q mid \<Longrightarrow>
   handleMechanicAccept bid mid st = (Returned (Failure ''Not your turn to accept''), st)"
  by (simp add: handleMechanicAccept_def)

section \<open>A lost conditional update\<close>

text \<open>
  Claim C4 fails: B has taken booking \<open>b1\<close> through the fallback, then the current
  candidate A accepts. The conditional update does not match;
  \<^verbatim>\<open>handleMechanicAccept\<close> returns \<^verbatim>\<open>Booking no longer available\<close>, the cursor
  stays at 0, nothing is emitted to B or to anyone, and no timer is pending.
\<close>

theorem lost_accept_does_not_advance:
  "map_option (\<lambda>b. (status b, mechanicId b)) (bookings taken ''b1'') = Some (ACCEPTED, Some ''B'')
   \<and> map_option (\<lambda>q. (isCurrent q ''A'', currentIndex q)) (activeQueues taken ''b1'') = Some (True, 0)
   \<and> fst (handleMechanicAccept ''b1'' ''A'' taken) = Returned (Failure ''Booking no longer available'')
   \<and> map_option currentIndex (activeQueues (snd (handleMechanicAccept ''b1'' ''A'' taken)) ''b1'') = Some 0
   \<and> emitted (snd (handleMechanicAccept ''b1'' ''A'' taken)) = emitted taken
   \<and> timers (snd (handleMechanicAccept ''b1'' ''A'' taken)) = Map.empty"
  by (simp add: taken_def idle_def booking1_def engine_defs)

text \<open>
  Claim C4 as amended. Whenever the conditional update of the current candidate's accept
  does not match, \<^verbatim>\<open>handleMechanicAccept\<close> clears the pending timer and returns the
  failure \<^verbatim>\<open>Booking no longer available\<close>: the queue entry with its cursor, the
  emissions and the bookings are as before, and the socket handler, whose fallback
  repeats the update without a match, acknowledges that failure.
\<close>

theorem lost_accept_returns_failure:
  assumes "activeQueues st bid = Some q" and "isCurrent q mid" and "\<not> claimableAt st bid"
  shows "handleMechanicAccept bid mid st =
           (Returned (Failure ''Booking no longer available''), clearTimerOf q st)
         \<and> activeQueues (clearTimerOf q st) = activeQueues st
         \<and> emitted (clearTimerOf q st) = emitted st
         \<and> bookings (clearTimerOf q st) = bookings st
         \<and> handleBookingAccept mid bid st =
             socket_emit mid (AcceptAck (AckErr ''Booking no longer available'')) (clearTimerOf q st)"
proof -
  have nc: "\<not> claimableAt (clearTimerOf q st) bid"
    using assms(3) by (simp add: claimableAt_def clearTimerOf_def clearTimeout_def split: option.splits)
  have 1: "handleMechanicAccept bid mid st =
           (Returned (Failure ''Booking no longer available''), clearTimerOf q st)"
    using assms(1,2) nc by (simp add: handleMechanicAccept_def findOneAndUpdate_accept_eq)
  show ?thesis
    using 1 nc
    by (simp add: handleBookingAccept_def findOneAndUpdate_accept_eq clearTimerOf_def
          clearTimeout_def split: option.splits)
qed

theorem lost_accept_returns_failure_witness:
  "activeQueues taken ''b1'' = Some queueAB \<and> isCurrent queueAB ''A''
   \<and> \<not> claimableAt taken ''b1''
   \<and> handleMechanicAccept ''b1'' ''A'' taken =
       (Returned (Failure ''Booking no longer available''), clearTimerOf queueAB taken)"
proof -
  have a: "activeQueues taken ''b1'' = Some queueAB"
    by (simp add: taken_def queueAB_def idle_def booking1_def engine_defs)
  have b: "isCurrent queueAB ''A''"
    by (simp add: queueAB_def isCurrent_def currentMechanic_def)
  have c: "\<not> claimableAt taken ''b1''"
    by (simp add: claimableAt_def taken_def idle_def booking1_def engine_defs)
  show ?thesis using lost_accept_returns_failure [OF a b c] a b c by blast
qed

section \<open>Starting a queue twice\<close>

text \<open>
  Claim C5 fails: after A rejected, B holds the offer of booking \<open>b1\<close> at cursor 1
  under timer 1. A second \<^verbatim>\<open>startQueue\<close> for \<open>b1\<close> returns normally, puts a new
  entry at cursor 0 under timer 2 in place of the old one, and leaves timer 1 pending.
\<close>

theorem second_start_replaces_queue:
  "map_option (\<lambda>q. (currentIndex q, timer q)) (activeQueues rejected1 ''b1'') = Some (1, Some 1)
   \<and> timers rejected1 1 = Some ''b1''
   \<and> fst (startQueue booking1 [BareId ''A'', BareId ''B''] rejected1) = Returned ()
   \<and> map_option (\<lambda>q. (currentIndex q, timer q))
        (activeQueues (snd (startQueue booking1 [BareId ''A'', BareId ''B''] rejected1)) ''b1'')
       = Some (0, Some 2)
   \<and> timers (snd (startQueue booking1 [BareId ''A'', BareId ''B''] rejected1)) 1 = Some ''b1''
   \<and> timers (snd (startQueue booking1 [BareId ''A'', BareId ''B''] rejected1)) 2 = Some ''b1''"
  by (simp add: rejected1_def idle_def booking1_def engine_defs)

text \<open>
  Claim C5 as amended. \<^verbatim>\<open>startQueue\<close> with a non-empty candidate list for a booking
  that already has an active entry overwrites that entry: afterwards the table holds,
  under the booking's identifier, the one fresh entry at cursor 0 over the new candidate
  list (the table is a map, so there is one entry per identifier at most).
\<close>

theorem start_overwrites_queue:
  assumes "activeQueues st (b_id b) = Some q0" and "ms \<noteq> []"
  shows "activeQueues (snd (startQueue b ms st)) (b_id b) =
           Some \<lparr>bookingId = b_id b, q_booking = b, mechanics = map toQueueMechanic ms,
                 currentIndex = 0, startedAt = now st,
                 timer = (case redis st of None \<Rightarrow> None | Some _ \<Rightarrow> Some (nextTimer st))\<rparr>"
proof -
  define q where "q = \<lparr>bookingId = b_id b, q_booking = b, mechanics = map toQueueMechanic ms,
                       currentIndex = 0, startedAt = now st, timer = None\<rparr>"
  define st2 where "st2 = saveQueueToRedis (b_id b) q (st\<lparr>activeQueues := (activeQueues st)(b_id b \<mapsto> q)\<rparr>)"
  have a2: "activeQueues st2 (b_id b) = Some q" "nextTimer st2 = nextTimer st"
    "(redis st2 = None) = (redis st = None)"
    by (simp_all add: st2_def saveQueueToRedis_def redis_set_def split: option.splits)
  have lt: "currentIndex q < length (mechanics q)" using assms(2) by (simp add: q_def)
  have "activeQueues (snd (startQueue b ms st)) = activeQueues (snd (sendToNextMechanic (b_id b) st2))"
    using assms(2)
    by (simp add: startQueue_def Let_def snd_andThen q_def st2_def notifyUserQueueStatus_def
          emitToUser_def split: outcome.splits)
  then show ?thesis
    using sendToNextMechanic_offer_queue [OF a2(1) lt] a2(2,3)
    by (auto simp: q_def split: option.splits)
qed

theorem start_overwrites_queue_witness:
  "activeQueues rejected1 ''b1'' =
     Some (queueAB\<lparr>currentIndex := 1, timer := Some 1\<rparr>)
   \<and> [BareId ''A''] \<noteq> []
   \<and> activeQueues (snd (startQueue booking1 [BareId ''A''] rejected1)) ''b1'' =
       Some \<lparr>bookingId = ''b1'', q_booking = booking1,
             mechanics = [\<lparr>mech_id = ''A'', distance = None, name = ''Mechanic''\<rparr>],
             currentIndex = 0, startedAt = 5, timer = Some 2\<rparr>"
proof -
  have a: "activeQueues rejected1 (b_id booking1) =
     Some (queueAB\<lparr>currentIndex := 1, timer := Some 1\<rparr>)"
    by (simp add: rejected1_def queueAB_def idle_def booking1_def engine_defs)
  have r: "redis rejected1 \<noteq> None" "nextTimer rejected1 = 2" "now rejected1 = 5"
    by (simp_all add: rejected1_def idle_def booking1_def engine_defs)
  have m: "[BareId ''A''] \<noteq> []" by simp
  show ?thesis
    using start_overwrites_queue [OF a m] a r
    by (auto simp: booking1_def split: option.splits)
qed

section \<open>Recovery\<close>

text \<open>
  Claim C6, at the input where the code departs from it. Redis holds the snapshot of
  booking \<open>b1\<close> at cursor 1 and the booking is still \<^verbatim>\<open>SEARCHING\<close>.
  \<^verbatim>\<open>startServer\<close> does not call \<^verbatim>\<open>restoreQueues\<close>: the started process has no
  queue for \<open>b1\<close>, has emitted nothing and has no timer. Had it called
  \<^verbatim>\<open>restoreQueues\<close>, the queue would be back at cursor 1 with the offer sent to B
  only.
\<close>

theorem startServer_runs_no_recovery:
  "map_option status (bookings restarted ''b1'') = Some SEARCHING
   \<and> map_option fst (map_of (the (redis restarted)) ''booking:queue:b1'') = Some (QueueSnapshot mechAB 1 3)
   \<and> activeQueues restarted ''b1'' = None
   \<and> emitted restarted = []
   \<and> timers restarted = Map.empty
   \<and> map_option currentIndex (activeQueues (restoreQueues restarted) ''b1'') = Some 1
   \<and> emitted (restoreQueues restarted) =
       [(ToMechanic ''B'', BookingNew ''b1'' None 10),
        (ToUser ''u1'', QueueStatus ''b1'' ''REQUESTING'' 2 2)]"
  by (simp add: restarted_def startServer_def mechAB_def booking1_def restoreQueues_def
        restoreKey_def startsWith_def engine_defs)

text \<open>What \<^verbatim>\<open>restoreQueues\<close> does for one snapshot when it is called: it resumes at the
  persisted cursor if the booking is still \<^verbatim>\<open>SEARCHING\<close>, and passes over the
  snapshot otherwise.\<close>

lemma restoreKey_resumes:
  assumes "redis st = Some store"
    and "map_of store (''booking:queue:'' @ bid) = Some (QueueSnapshot ms idx started, ttl)"
    and "\<not> includes_str (''booking:queue:'' @ bid) '':current:''"
    and "bookings st bid = Some b" and "status b = SEARCHING" and "idx < length ms"
  shows "activeQueues (snd (restoreKey (''booking:queue:'' @ bid) st)) bid =
           Some \<lparr>bookingId = bid, q_booking = b, mechanics = ms, currentIndex = idx,
                 startedAt = started, timer = Some (nextTimer st)\<rparr>"
    and "emitted (snd (restoreKey (''booking:queue:'' @ bid) st)) =
           emitted st @
           [(ToMechanic (mech_id (ms ! idx)), BookingNew (b_id b) (distance (ms ! idx)) 10),
            (ToUser (userId b), QueueStatus bid ''REQUESTING'' (length ms) (idx + 1))]"
  using assms
  by (simp_all add: restoreKey_def engine_defs)

lemma restoreKey_discards:
  assumes "bookings st bid = Some b" and "status b \<noteq> SEARCHING"
  shows "snd (restoreKey (''booking:queue:'' @ bid) st) = st"
  using assms
  by (auto simp: restoreKey_def Let_def redis_get_def andThen_def
           split: option.splits redisValue.splits)

section \<open>No candidates\<close>

text \<open>
  Claim C7. \<^verbatim>\<open>startQueue\<close> with an empty candidate list, and \<^verbatim>\<open>createBooking\<close>
  with an empty lookup result, emit the one event \<^verbatim>\<open>booking:no-mechanic\<close> to the
  requester and nothing to any mechanic, leave no queue entry for the booking, and set
  the stored booking's status to \<^verbatim>\<open>NO_MECHANIC_AVAILABLE\<close>.
\<close>

theorem no_candidates_no_dispatch:
  "createBooking_dispatch b [] st = startQueue b [] st
   \<and> emitted (snd (startQueue b [] st)) =
       emitted st @ [(ToUser (userId b), BookingNoMechanic (b_id b))]
   \<and> activeQueues (snd (startQueue b [] st)) (b_id b) = None
   \<and> map_option status (bookings (snd (startQueue b [] st)) (b_id b)) =
       map_option (\<lambda>_. NO_MECHANIC_AVAILABLE) (bookings st (b_id b))"
proof -
  have s: "startQueue b [] st = handleNoMechanicsAvailable b st"
    by (simp add: startQueue_def)
  have c: "createBooking_dispatch b [] st = handleNoMechanicsAvailable b st"
    by (simp add: createBooking_dispatch_def)
  have e: "emitted (snd (handleNoMechanicsAvailable b st)) =
             emitted st @ [(ToUser (userId b), BookingNoMechanic (b_id b))]"
    by (simp add: handleNoMechanicsAvailable_def Let_def emitToUser_def)
  have a: "activeQueues (snd (handleNoMechanicsAvailable b st)) (b_id b) = None"
    by (simp add: handleNoMechanicsAvailable_def Let_def)
  have d: "map_option status (bookings (snd (handleNoMechanicsAvailable b st)) (b_id b)) =
       map_option (\<lambda>_. NO_MECHANIC_AVAILABLE) (bookings st (b_id b))"
    by (simp add: handleNoMechanicsAvailable_def Let_def emitToUser_def bookings_markNoMechanic
          option.map_comp comp_def)
  show ?thesis using e a d by (simp add: s c)
qed

section \<open>The Redis client, and the blocks of an advance\<close>

text \<open>The handlers of an advance are the compositions of their blocks; the Redis client
  of a running process is never \<^verbatim>\<open>null\<close>.\<close>

lemma skipToNextMechanic_split:
  "skipToNextMechanic bid reason st = sendToNextMechanic bid (skipPhase1 bid reason st)"
  by (cases "activeQueues st bid")
     (simp_all add: skipToNextMechanic_def skipPhase1_def sendToNextMechanic_def Let_def)

lemma skipPhase1_begun:
  assumes "activeQueues st1 bid = Some q" and "currentIndex q < length (mechanics q)"
    and "redis st1 = Some store" and "emitted st1 = emitted st"
  shows "advanceBegun bid q reason st (skipPhase1 bid reason st1)"
proof -
  have cur: "currentMechanic q = Some (mechanics q ! currentIndex q)"
    using assms(2) by (simp add: currentMechanic_def)
  show ?thesis
    using assms(1,3,4) cur
    by (cases "timer q")
       (simp_all add: advanceBegun_def skipPhase1_def Let_def prim_defs AList.update_conv')
qed


lemma redis_frame [simp]:
  "redis (clearTimerOf q st) = redis st"
  "redis (emitToMechanic m msg st) = redis st"
  "redis (emitToUser u msg st) = redis st"
  "redis (socket_emit m msg st) = redis st"
  "redis (notifyUserQueueStatus u msg st) = redis st"
  "redis (startTimeout bid st) = redis st"
  by (simp_all add: prim_defs startTimeout_def Let_def split: option.splits)

lemma up_saveQueueToRedis: "(redis (saveQueueToRedis bid q st) = None) = (redis st = None)"
  by (simp add: saveQueueToRedis_def redis_set_def split: option.splits)

lemma up_handleNoMechanicsAvailable:
  "(redis (snd (handleNoMechanicsAvailable b st)) = None) = (redis st = None)"
  by (simp add: redis_handleNoMechanicsAvailable)

lemma up_sendToNextMechanic:
  "(redis (snd (sendToNextMechanic bid st)) = None) = (redis st = None)"
proof (cases "activeQueues st bid")
  case None
  then show ?thesis by (simp add: sendToNextMechanic_def)
next
  case (Some q)
  show ?thesis
  proof (cases "currentIndex q < length (mechanics q)")
    case False
    then have "sendToNextMechanic bid st = handleNoMechanicsAvailable (q_booking q) st"
      using Some by (simp add: sendToNextMechanic_def)
    then show ?thesis by (simp add: up_handleNoMechanicsAvailable)
  next
    case True
    show ?thesis
    proof (cases "redis st")
      case None
      then show ?thesis
        using Some True
        by (simp add: sendToNextMechanic_def Let_def redis_set_def andThen_def emitToMechanic_def)
    next
      case (Some store)
      show ?thesis
        using sendToNextMechanic_offers [OF \<open>activeQueues st bid = Some q\<close> True Some] Some
        by simp
    qed
  qed
qed

lemma up_skipPhase1: "(redis (skipPhase1 bid reason st) = None) = (redis st = None)"
  by (simp add: skipPhase1_def Let_def up_saveQueueToRedis split: option.splits)

lemma up_skipToNextMechanic:
  "(redis (snd (skipToNextMechanic bid reason st)) = None) = (redis st = None)"
  by (simp add: skipToNextMechanic_split up_sendToNextMechanic up_skipPhase1)

lemma up_handleMechanicReject:
  "(redis (snd (handleMechanicReject bid mid r st)) = None) = (redis st = None)"
proof (cases "\<exists>q. activeQueues st bid = Some q \<and> isCurrent q mid \<and> redis st \<noteq> None")
  case False
  then have "snd (handleMechanicReject bid mid r st) = st"
    by (auto simp: handleMechanicReject_def redis_set_def andThen_def Let_def split: option.splits)
  then show ?thesis by simp
next
  case True
  then obtain q store where q: "activeQueues st bid = Some q" "isCurrent q mid" "redis st = Some store"
    by auto
  define reason where "reason = (case r of None \<Rightarrow> ''rejected'' | Some x \<Rightarrow> x)"
  define st1 where "st1 = st\<lparr>redis := Some (AList.update (''booking:reject:'' @ bid @ '':'' @ mid)
                                  (RejectRecord reason (now st), 3600) store)\<rparr>"
  have h: "handleMechanicReject bid mid r st = skipToNextMechanic bid reason st1"
    using q by (simp add: handleMechanicReject_def redis_set_def andThen_def reason_def st1_def Let_def)
  show ?thesis unfolding h up_skipToNextMechanic using q(3) by (simp add: st1_def)
qed

lemma up_fireTimer: "(redis (snd (fireTimer t st)) = None) = (redis st = None)"
  by (cases "timers st t") (simp_all add: fireTimer_def up_skipToNextMechanic)

lemma redis_findOneAndUpdate_accept [simp]:
  "redis (snd (findOneAndUpdate_accept bid mid pushed st)) = redis st"
  by (simp add: findOneAndUpdate_accept_eq)

lemma redis_fold_cancelled [simp]:
  "redis (fold (\<lambda>m. emitToMechanic (f m) msg) ms st) = redis st"
  by (induction ms arbitrary: st) simp_all

lemma up_cleanupQueue: "(redis (snd (cleanupQueue bid st)) = None) = (redis st = None)"
  by (simp add: redis_cleanupQueue)

lemma up_handleMechanicAccept:
  "(redis (snd (handleMechanicAccept bid mid st)) = None) = (redis st = None)"
proof (cases "\<exists>q. activeQueues st bid = Some q \<and> isCurrent q mid")
  case False
  then have "snd (handleMechanicAccept bid mid st) = st"
    by (auto simp: handleMechanicAccept_def split: option.splits)
  then show ?thesis by simp
next
  case True
  then obtain q where q: "activeQueues st bid = Some q" "isCurrent q mid" by auto
  show ?thesis
    using q
    by (simp add: handleMechanicAccept_def findOneAndUpdate_accept_eq Let_def snd_andThen
          up_cleanupQueue split: outcome.splits)
qed

lemma up_handleBookingAccept:
  "(redis (handleBookingAccept mid bid st) = None) = (redis st = None)"
proof -
  obtain r st1 where h: "handleMechanicAccept bid mid st = (r, st1)"
    by (cases "handleMechanicAccept bid mid st")
  then have u: "(redis st1 = None) = (redis st = None)"
    using up_handleMechanicAccept [of bid mid st] by simp
  show ?thesis
    using u
    by (simp add: handleBookingAccept_def h findOneAndUpdate_accept_eq
          split: outcome.splits acceptResult.splits)
qed

lemma up_handleBookingReject:
  "(redis (handleBookingReject mid bid r st) = None) = (redis st = None)"
proof -
  have "redis (handleBookingReject mid bid r st) = redis (snd (handleMechanicReject bid mid r st))"
    by (cases "handleMechanicReject bid mid r st")
       (auto simp: handleBookingReject_def split: outcome.splits)
  then show ?thesis by (simp add: up_handleMechanicReject)
qed

lemma up_startQueue: "(redis (snd (startQueue b ms st)) = None) = (redis st = None)"
proof (cases "ms = []")
  case True
  then show ?thesis by (simp add: startQueue_def up_handleNoMechanicsAvailable)
next
  case False
  then show ?thesis
    by (simp add: startQueue_def Let_def snd_andThen up_sendToNextMechanic up_saveQueueToRedis
          split: outcome.splits)
qed

lemma up_step: "(redis (step e st) = None) = (redis st = None)"
  by (cases e)
     (simp_all add: up_handleBookingAccept up_handleBookingReject up_fireTimer up_startQueue
        createBooking_dispatch_def up_handleNoMechanicsAvailable)

lemma up_run: "(redis (run es st) = None) = (redis st = None)"
proof (induction es arbitrary: st)
  case Nil
  then show ?case by (simp add: run_def)
next
  case (Cons e es)
  have "run (e # es) st = run es (step e st)" by (simp add: run_def)
  then show ?case by (simp add: Cons.IH up_step)
qed

lemma reached_facts:
  assumes "st = run es0 (startServer store db clock)"
  shows "redis st \<noteq> None" "wfQueues st" "cursorInv st"
proof -
  show "redis st \<noteq> None" unfolding assms by (simp add: up_run startServer_def)
  show "wfQueues st" unfolding assms by (rule run_wfQueues [OF startServer_inv(1)])
  show "cursorInv st" unfolding assms by (rule run_cursorInv [OF startServer_inv(1,2)])
qed


lemma handleMechanicReject_split:
  "handleMechanicReject bid mid r st =
     andThen (rejectPhase1 bid mid r st)
       (\<lambda>go. if go then skipToNextMechanic bid (rejectReason r) else Pair (Returned ()))"
  by (simp add: handleMechanicReject_def rejectPhase1_def rejectReason_def Let_def andThen_def
        redis_set_def split: option.splits)

lemma fireTimer_split:
  "fireTimer t st =
     (case timers st t of
        None \<Rightarrow> (Returned (), st)
      | Some bid \<Rightarrow> sendToNextMechanic bid (timerPhase1 t st))"
  by (simp add: fireTimer_def timerPhase1_def skipToNextMechanic_split split: option.splits)

lemma rejectPhase1_valid:
  assumes "activeQueues st bid = Some q" and "isCurrent q mid" and "redis st = Some store"
  shows "rejectPhase1 bid mid r st =
           (Returned True,
            st\<lparr>redis := Some (AList.update (''booking:reject:'' @ bid @ '':'' @ mid)
                                (RejectRecord (rejectReason r) (now st), 3600) store)\<rparr>)"
  using assms
  by (simp add: rejectPhase1_def rejectReason_def Let_def andThen_def redis_set_def)

lemma skipPhase1_state:
  assumes "activeQueues st bid = Some q" and "redis st = Some store"
  shows "skipPhase1 bid reason st =
     st\<lparr>activeQueues := (activeQueues st)(bid \<mapsto> q\<lparr>timer := None, currentIndex := Suc (currentIndex q)\<rparr>),
        redis := Some (AList.update (''booking:queue:'' @ bid)
                   (QueueSnapshot (mechanics q) (Suc (currentIndex q)) (startedAt q), 600) store),
        timers := (case timer q of Some t \<Rightarrow> (timers st)(t := None) | None \<Rightarrow> timers st),
        emitted := emitted st @
           (case currentMechanic q of
              Some cur \<Rightarrow> [(ToMechanic (mech_id cur), BookingTimeout bid (withdrawn reason))]
            | None \<Rightarrow> [])\<rparr>"
  using assms
  by (auto intro!: state.equality simp: skipPhase1_def Let_def prim_defs withdrawn_def
        split: option.splits)




lemma sendToNextMechanic_ends:
  assumes "activeQueues st bid = Some q'" and "length (mechanics q') \<le> currentIndex q'"
    and "b_id (q_booking q') = bid" and "redis st = Some store"
  shows "fst (sendToNextMechanic bid st) = Returned ()"
    and "timers (snd (sendToNextMechanic bid st)) =
           (case timer q' of Some t \<Rightarrow> (timers st)(t := None) | None \<Rightarrow> timers st)"
    and "emitted (snd (sendToNextMechanic bid st)) =
           emitted st @ [(ToUser (userId (q_booking q')), BookingNoMechanic bid)]"
    and "activeQueues (snd (sendToNextMechanic bid st)) = (activeQueues st)(bid := None)"
    and "bookings (snd (sendToNextMechanic bid st)) = bookings (markNoMechanic bid st)"
    and "redis (snd (sendToNextMechanic bid st)) =
           Some (AList.delete (''booking:queue:current:'' @ bid)
                   (AList.delete (''booking:queue:'' @ bid) store))"
proof -
  have h: "sendToNextMechanic bid st = handleNoMechanicsAvailable (q_booking q') st"
    using assms(1,2) by (simp add: sendToNextMechanic_def)
  show "fst (sendToNextMechanic bid st) = Returned ()"
    unfolding h using assms(1,3,4)
    by (simp add: handleNoMechanicsAvailable_def cleanupQueue_def Let_def prim_defs
          split: option.splits)
  show "timers (snd (sendToNextMechanic bid st)) =
           (case timer q' of Some t \<Rightarrow> (timers st)(t := None) | None \<Rightarrow> timers st)"
    unfolding h using assms(1,3,4)
    by (simp add: handleNoMechanicsAvailable_def cleanupQueue_def Let_def prim_defs
          split: option.splits)
  show "emitted (snd (sendToNextMechanic bid st)) =
           emitted st @ [(ToUser (userId (q_booking q')), BookingNoMechanic bid)]"
    unfolding h using assms(3) by (simp add: handleNoMechanicsAvailable_effect)
  show "activeQueues (snd (sendToNextMechanic bid st)) = (activeQueues st)(bid := None)"
    unfolding h using assms(3) by (simp add: handleNoMechanicsAvailable_effect)
  show "bookings (snd (sendToNextMechanic bid st)) = bookings (markNoMechanic bid st)"
    unfolding h using assms(3) by (simp add: handleNoMechanicsAvailable_effect)
  show "redis (snd (sendToNextMechanic bid st)) =
           Some (AList.delete (''booking:queue:current:'' @ bid)
                   (AList.delete (''booking:queue:'' @ bid) store))"
    unfolding h using assms(3,4) by (simp add: redis_handleNoMechanicsAvailable)
qed

lemma skip_blocks_exhaust:
  assumes "activeQueues st1 bid = Some q" and "currentIndex q < length (mechanics q)"
    and "\<not> Suc (currentIndex q) < length (mechanics q)" and "b_id (q_booking q) = bid"
    and "redis st1 = Some store" and "emitted st1 = emitted st" and "bookings st1 = bookings st"
  shows "fst (sendToNextMechanic bid (skipPhase1 bid reason st1)) = Returned ()"
    and "exhaustedFrom bid q reason st (snd (sendToNextMechanic bid (skipPhase1 bid reason st1)))"
proof -
  define q' where "q' = q\<lparr>timer := None, currentIndex := Suc (currentIndex q)\<rparr>"
  define store' where "store' = AList.update (''booking:queue:'' @ bid)
                   (QueueSnapshot (mechanics q) (Suc (currentIndex q)) (startedAt q), 600) store"
  define st2 where "st2 = skipPhase1 bid reason st1"
  have cur: "currentMechanic q = Some (mechanics q ! currentIndex q)"
    using assms(2) by (simp add: currentMechanic_def)
  have s2: "activeQueues st2 bid = Some q'" "redis st2 = Some store'"
    "timers st2 = (case timer q of Some t \<Rightarrow> (timers st1)(t := None) | None \<Rightarrow> timers st1)"
    "emitted st2 = emitted st @
        [(ToMechanic (mech_id (mechanics q ! currentIndex q)), BookingTimeout bid (withdrawn reason))]"
    "bookings st2 = bookings st"
    unfolding st2_def skipPhase1_state [OF assms(1,5)] q'_def store'_def
    using cur assms(6,7) by simp_all
  have q': "length (mechanics q') \<le> currentIndex q'" "b_id (q_booking q') = bid" "timer q' = None"
    "userId (q_booking q') = userId (q_booking q)"
    using assms(3,4) by (simp_all add: q'_def)
  note e = sendToNextMechanic_ends [OF s2(1) q'(1,2) s2(2)]
  show "fst (sendToNextMechanic bid (skipPhase1 bid reason st1)) = Returned ()"
    using e(1) by (simp add: st2_def)
  have t: "case timer q of Some t0 \<Rightarrow> timers (snd (sendToNextMechanic bid st2)) t0 = None
           | None \<Rightarrow> True"
    unfolding e(2) q'(3) s2(3) by (simp split: option.splits)
  have em: "emitted (snd (sendToNextMechanic bid st2)) = emitted st @
            [(ToMechanic (mech_id (mechanics q ! currentIndex q)),
              BookingTimeout bid
                (if reason = ''timeout'' then ''Time expired'' else ''Moved to next mechanic'')),
             (ToUser (userId (q_booking q)), BookingNoMechanic bid)]"
    unfolding e(3) s2(4) q'(4) by (simp add: withdrawn_def)
  have a: "activeQueues (snd (sendToNextMechanic bid st2)) bid = None"
    unfolding e(4) by simp
  have b: "map_option status (bookings (snd (sendToNextMechanic bid st2)) bid) =
          map_option (\<lambda>_. NO_MECHANIC_AVAILABLE) (bookings st bid)"
    unfolding e(5) using s2(5)
    by (simp add: bookings_markNoMechanic option.map_comp comp_def)
  have r: "case redis (snd (sendToNextMechanic bid st2)) of
            None \<Rightarrow> False
          | Some s \<Rightarrow> map_of s (''booking:queue:'' @ bid) = None"
    unfolding e(6) by (simp add: AList.delete_conv')
  show "exhaustedFrom bid q reason st (snd (sendToNextMechanic bid (skipPhase1 bid reason st1)))"
    unfolding exhaustedFrom_def st2_def [symmetric]
    using t em a b r by simp
qed

lemma skip_blocks_outcome:
  assumes "activeQueues st1 bid = Some q" and "currentIndex q < length (mechanics q)"
    and "b_id (q_booking q) = bid"
    and "redis st1 = Some store" and "emitted st1 = emitted st" and "bookings st1 = bookings st"
    and "nextTimer st1 = nextTimer st"
  shows "fst (sendToNextMechanic bid (skipPhase1 bid reason st1)) = Returned ()"
    and "advanceBegun bid q reason st (skipPhase1 bid reason st1)"
    and "advanceOutcome bid q reason st (snd (sendToNextMechanic bid (skipPhase1 bid reason st1)))"
proof -
  show "advanceBegun bid q reason st (skipPhase1 bid reason st1)"
    by (rule skipPhase1_begun [OF assms(1,2,4,5)])
  show "fst (sendToNextMechanic bid (skipPhase1 bid reason st1)) = Returned ()"
  proof (cases "Suc (currentIndex q) < length (mechanics q)")
    case True
    from skipToNextMechanic_advances(1) [OF assms(1) True assms(4,7,5)]
    show ?thesis by (simp add: skipToNextMechanic_split)
  next
    case False
    from skip_blocks_exhaust(1) [OF assms(1,2) False assms(3,4,5,6)] show ?thesis .
  qed
  show "advanceOutcome bid q reason st (snd (sendToNextMechanic bid (skipPhase1 bid reason st1)))"
  proof (cases "Suc (currentIndex q) < length (mechanics q)")
    case True
    from skipToNextMechanic_advances(2) [OF assms(1) True assms(4,7,5), of reason]
    show ?thesis using True by (simp add: skipToNextMechanic_split advanceOutcome_def)
  next
    case False
    from skip_blocks_exhaust(2) [OF assms(1,2) False assms(3,4,5,6)]
    show ?thesis using False by (simp add: advanceOutcome_def)
  qed
qed

section \<open>Reject and timeout\<close>

text \<open>
  Claim C8 fails when two advances of one job interleave. In the queue of A and B, A
  rejects while timer 0 is about to fire. The reject finds A current and is suspended at
  its first \<^verbatim>\<open>await\<close>; the timer fires and its callback withdraws the offer from A
  and moves the cursor to B; the reject resumes, withdraws from B an offer that B never
  had and moves the cursor past the list; the callback resumes and ends the queue as
  exhausted. Both events were valid, yet B, the current candidate after the timer's
  increment, is never offered the job: the only \<^verbatim>\<open>booking:new\<close> of the run is the
  one to A.
\<close>

theorem racing_advances_skip_candidate:
  "fst (rejectPhase1 ''b1'' ''A'' None queued) = Returned True
   \<and> timers rejectAwaits 0 = Some ''b1''
   \<and> cursorOf rejectAwaits ''b1'' = Some 0
   \<and> cursorOf timerSkipped ''b1'' = Some 1
   \<and> cursorOf rejectSkipped ''b1'' = Some 2
   \<and> activeQueues rejectDone ''b1'' = None
   \<and> emitted rejectDone =
        [(ToMechanic ''A'', BookingNew ''b1'' None 10),
         (ToUser ''u1'', QueueStatus ''b1'' ''REQUESTING'' 2 1),
         (ToUser ''u1'', QueueStatus ''b1'' ''SEARCHING'' 2 1),
         (ToMechanic ''A'', BookingTimeout ''b1'' ''Time expired''),
         (ToMechanic ''B'', BookingTimeout ''b1'' ''Moved to next mechanic''),
         (ToUser ''u1'', BookingNoMechanic ''b1'')]"
  by (simp add: rejectDone_def timerDone_def rejectSkipped_def timerSkipped_def rejectAwaits_def
        rejectPhase1_def timerPhase1_def skipPhase1_def cursorOf_def
        queued_def idle_def booking1_def engine_defs)

text \<open>
  Claim C8 as amended. On a job that is active in a state the process has reached: a
  reject of a mechanic who is not the current candidate returns normally and changes
  nothing. A reject of the current candidate and the firing of the job's timer, when
  their handler runs to its end with no other handler in between, cancel the pending
  timer, notify the skipped candidate, increment the cursor by one and persist the
  snapshot (the state in which the handler is suspended before
  \<^verbatim>\<open>sendToNextMechanic\<close>), and then offer the job to the new current candidate and arm
  a new timer or, when the skipped candidate was the last one, notify the requester and end
  the job as exhausted.
\<close>

theorem reject_and_timeout_advance:
  assumes "st = run es0 (startServer store db clock)" and "activeQueues st bid = Some q"
  shows "(\<not> isCurrent q mid \<longrightarrow> handleMechanicReject bid mid r st = (Returned (), st))
     \<and> (isCurrent q mid \<longrightarrow>
          fst (rejectPhase1 bid mid r st) = Returned True
          \<and> handleMechanicReject bid mid r st =
              sendToNextMechanic bid
                (skipPhase1 bid (rejectReason r) (snd (rejectPhase1 bid mid r st)))
          \<and> advanceBegun bid q (rejectReason r) st
              (skipPhase1 bid (rejectReason r) (snd (rejectPhase1 bid mid r st)))
          \<and> fst (handleMechanicReject bid mid r st) = Returned ()
          \<and> advanceOutcome bid q (rejectReason r) st (snd (handleMechanicReject bid mid r st)))
     \<and> (timers st t = Some bid \<longrightarrow>
          fireTimer t st = sendToNextMechanic bid (timerPhase1 t st)
          \<and> advanceBegun bid q ''timeout'' st (timerPhase1 t st)
          \<and> fst (fireTimer t st) = Returned ()
          \<and> advanceOutcome bid q ''timeout'' st (snd (fireTimer t st)))"
proof (intro conjI impI)
  assume "\<not> isCurrent q mid"
  then show "handleMechanicReject bid mid r st = (Returned (), st)"
    using assms(2) by (simp add: handleMechanicReject_def)
next
  note inv = reached_facts [OF assms(1)]
  obtain store0 where store0: "redis st = Some store0" using inv(1) by auto
  have lt: "currentIndex q < length (mechanics q)"
    using inv(3) assms(2) by (simp add: cursorInv_def)
  have own: "b_id (q_booking q) = bid"
    using inv(2) assms(2) by (simp add: wfQueues_def)
  {
    assume cur: "isCurrent q mid"
    define st1 where "st1 = st\<lparr>redis := Some (AList.update (''booking:reject:'' @ bid @ '':'' @ mid)
                                (RejectRecord (rejectReason r) (now st), 3600) store0)\<rparr>"
    have p1: "rejectPhase1 bid mid r st = (Returned True, st1)"
      unfolding st1_def by (rule rejectPhase1_valid [OF assms(2) cur store0])
    have s1: "activeQueues st1 bid = Some q"
      "redis st1 = Some (AList.update (''booking:reject:'' @ bid @ '':'' @ mid)
                                (RejectRecord (rejectReason r) (now st), 3600) store0)"
      "emitted st1 = emitted st" "bookings st1 = bookings st" "nextTimer st1 = nextTimer st"
      using assms(2) by (simp_all add: st1_def)
    have h: "handleMechanicReject bid mid r st =
              sendToNextMechanic bid (skipPhase1 bid (rejectReason r) st1)"
      by (simp add: handleMechanicReject_split p1 andThen_def skipToNextMechanic_split)
    note o = skip_blocks_outcome [OF s1(1) lt own s1(2,3,4,5), of "rejectReason r"]
    show "fst (rejectPhase1 bid mid r st) = Returned True" by (simp add: p1)
    show "handleMechanicReject bid mid r st =
              sendToNextMechanic bid
                (skipPhase1 bid (rejectReason r) (snd (rejectPhase1 bid mid r st)))"
      by (simp add: h p1)
    show "advanceBegun bid q (rejectReason r) st
              (skipPhase1 bid (rejectReason r) (snd (rejectPhase1 bid mid r st)))"
      using o(2) by (simp add: p1)
    show "fst (handleMechanicReject bid mid r st) = Returned ()"
      using o(1) by (simp add: h)
    show "advanceOutcome bid q (rejectReason r) st (snd (handleMechanicReject bid mid r st))"
      using o(3) by (simp add: h)
  }
  {
    assume tm: "timers st t = Some bid"
    define st1 where "st1 = st\<lparr>timers := (timers st)(t := None)\<rparr>"
    have p1: "timerPhase1 t st = skipPhase1 bid ''timeout'' st1"
      using tm by (simp add: timerPhase1_def st1_def)
    have s1: "activeQueues st1 bid = Some q" "redis st1 = Some store0"
      "emitted st1 = emitted st" "bookings st1 = bookings st" "nextTimer st1 = nextTimer st"
      using assms(2) store0 by (simp_all add: st1_def)
    have h: "fireTimer t st = sendToNextMechanic bid (timerPhase1 t st)"
      using tm by (simp add: fireTimer_split)
    note o = skip_blocks_outcome [OF s1(1) lt own s1(2,3,4,5), of "''timeout''"]
    show "fireTimer t st = sendToNextMechanic bid (timerPhase1 t st)" by (rule h)
    show "advanceBegun bid q ''timeout'' st (timerPhase1 t st)"
      using o(2) by (simp add: p1)
    show "fst (fireTimer t st) = Returned ()"
      using o(1) by (simp add: h p1)
    show "advanceOutcome bid q ''timeout'' st (snd (fireTimer t st))"
      using o(3) by (simp add: h p1)
  }
qed

theorem reject_and_timeout_advance_witness:
  "queuedA = run [CreateBooking booking1 [BareId ''A'']] (startServer [] [''b1'' \<mapsto> booking1] 5)
   \<and> activeQueues queuedA ''b1'' = Some queueA
   \<and> \<not> isCurrent queueA ''B'' \<and> isCurrent queueA ''A'' \<and> timers queuedA 0 = Some ''b1''
   \<and> handleMechanicReject ''b1'' ''B'' None queuedA = (Returned (), queuedA)
   \<and> advanceBegun ''b1'' queueA ''rejected'' queuedA
        (skipPhase1 ''b1'' ''rejected'' (snd (rejectPhase1 ''b1'' ''A'' None queuedA)))
   \<and> exhaustedFrom ''b1'' queueA ''rejected'' queuedA
        (snd (handleMechanicReject ''b1'' ''A'' None queuedA))
   \<and> advanceBegun ''b1'' queueA ''timeout'' queuedA (timerPhase1 0 queuedA)
   \<and> exhaustedFrom ''b1'' queueA ''timeout'' queuedA (snd (fireTimer 0 queuedA))
   \<and> queued = run [CreateBooking booking1 [BareId ''A'', BareId ''B'']]
                 (startServer [] [''b1'' \<mapsto> booking1] 5)
   \<and> activeQueues queued ''b1'' = Some queueAB
   \<and> isCurrent queueAB ''A'' \<and> timers queued 0 = Some ''b1''
   \<and> advancedFrom ''b1'' queueAB ''rejected'' queued
        (snd (handleMechanicReject ''b1'' ''A'' None queued))
   \<and> advancedFrom ''b1'' queueAB ''timeout'' queued (snd (fireTimer 0 queued))"
proof -
  have s: "queuedA = run [CreateBooking booking1 [BareId ''A'']]
                       (startServer [] [''b1'' \<mapsto> booking1] 5)"
    by (simp only: queuedA_def idle_startServer)
  have a: "activeQueues queuedA ''b1'' = Some queueA" "timers queuedA 0 = Some ''b1''"
    by (simp_all add: queuedA_def queueA_def idle_def booking1_def engine_defs)
  have b: "\<not> isCurrent queueA ''B''" "isCurrent queueA ''A''"
    "\<not> Suc (currentIndex queueA) < length (mechanics queueA)"
    by (simp_all add: queueA_def isCurrent_def currentMechanic_def)
  have s2: "queued = run [CreateBooking booking1 [BareId ''A'', BareId ''B'']]
                       (startServer [] [''b1'' \<mapsto> booking1] 5)"
    by (simp only: queued_def idle_startServer)
  have a2: "activeQueues queued ''b1'' = Some queueAB" "timers queued 0 = Some ''b1''"
    by (simp_all add: queued_def queueAB_def idle_def booking1_def engine_defs)
  have b2: "isCurrent queueAB ''A''" "Suc (currentIndex queueAB) < length (mechanics queueAB)"
    by (simp_all add: queueAB_def isCurrent_def currentMechanic_def)
  have r: "rejectReason None = ''rejected''" by (simp add: rejectReason_def)
  note stale = reject_and_timeout_advance [OF s a(1), of "''B''" None 0, THEN conjunct1, THEN mp,
      OF b(1)]
  note lastR = reject_and_timeout_advance [OF s a(1), of "''A''" None 0, THEN conjunct2,
      THEN conjunct1, THEN mp, OF b(2), unfolded r]
  note lastT = reject_and_timeout_advance [OF s a(1), of "''A''" None 0, THEN conjunct2,
      THEN conjunct2, THEN mp, OF a(2)]
  note nextR = reject_and_timeout_advance [OF s2 a2(1), of "''A''" None 0, THEN conjunct2,
      THEN conjunct1, THEN mp, OF b2(1), unfolded r]
  note nextT = reject_and_timeout_advance [OF s2 a2(1), of "''A''" None 0, THEN conjunct2,
      THEN conjunct2, THEN mp, OF a2(2)]
  have e1: "exhaustedFrom ''b1'' queueA ''rejected'' queuedA
        (snd (handleMechanicReject ''b1'' ''A'' None queuedA))"
    using lastR [THEN conjunct2, THEN conjunct2, THEN conjunct2, THEN conjunct2] b(3)
    by (simp add: advanceOutcome_def)
  have e2: "exhaustedFrom ''b1'' queueA ''timeout'' queuedA (snd (fireTimer 0 queuedA))"
    using lastT [THEN conjunct2, THEN conjunct2, THEN conjunct2] b(3)
    by (simp add: advanceOutcome_def)
  have e3: "advancedFrom ''b1'' queueAB ''rejected'' queued
        (snd (handleMechanicReject ''b1'' ''A'' None queued))"
    using nextR [THEN conjunct2, THEN conjunct2, THEN conjunct2, THEN conjunct2] b2(2)
    by (simp add: advanceOutcome_def)
  have e4: "advancedFrom ''b1'' queueAB ''timeout'' queued (snd (fireTimer 0 queued))"
    using nextT [THEN conjunct2, THEN conjunct2, THEN conjunct2] b2(2)
    by (simp add: advanceOutcome_def)
  show ?thesis
    by (intro conjI s a b(1,2) stale lastR [THEN conjunct2, THEN conjunct2, THEN conjunct1]
          lastT [THEN conjunct2, THEN conjunct1] e1 e2 s2 a2 b2(1) e3 e4)
qed

section \<open>The cursor\<close>




section \<open>Exhaustion and status writes\<close>

text \<open>
  Claim C10 fails in its second part: B takes booking \<open>b1\<close> through the fallback while
  the only candidate A holds the offer; when A's timer fires the queue is exhausted and
  the status goes from \<^verbatim>\<open>ACCEPTED\<close> to \<^verbatim>\<open>NO_MECHANIC_AVAILABLE\<close>, a write that
  does not start from \<^verbatim>\<open>SEARCHING\<close>.
\<close>

theorem exhaustion_overwrites_accepted:
  "map_option status
     (bookings (run [CreateBooking booking1 [BareId ''A''], BookingAccept ''B'' ''b1''] idle) ''b1'')
     = Some ACCEPTED
   \<and> map_option status
       (bookings (step (TimerFires 0)
          (run [CreateBooking booking1 [BareId ''A''], BookingAccept ''B'' ''b1''] idle)) ''b1'')
     = Some NO_MECHANIC_AVAILABLE
   \<and> \<not> (ACCEPTED = SEARCHING)"
  by (simp add: idle_def booking1_def engine_defs)

text \<open>
  Claim C10 as amended. When a skip moves the cursor to the end of the candidate list,
  the engine sets the booking's status to \<^verbatim>\<open>NO_MECHANIC_AVAILABLE\<close> whatever it was,
  notifies the requester last, removes the queue entry and, with Redis connected, the
  snapshot. The status writes of every handler are: none, \<^verbatim>\<open>PENDING\<close> or
  \<^verbatim>\<open>SEARCHING\<close> to \<^verbatim>\<open>ACCEPTED\<close>, and any status to \<^verbatim>\<open>NO_MECHANIC_AVAILABLE\<close>.
\<close>

theorem exhaustion_and_status_writes:
  "(activeQueues st bid = Some q \<and> length (mechanics q) \<le> Suc (currentIndex q)
      \<and> b_id (q_booking q) = bid \<longrightarrow>
      map_option status (bookings (snd (skipToNextMechanic bid reason st)) bid) =
        map_option (\<lambda>_. NO_MECHANIC_AVAILABLE) (bookings st bid)
      \<and> last (emitted (snd (skipToNextMechanic bid reason st))) =
          (ToUser (userId (q_booking q)), BookingNoMechanic bid)
      \<and> activeQueues (snd (skipToNextMechanic bid reason st)) bid = None
      \<and> (case redis (snd (skipToNextMechanic bid reason st)) of
            None \<Rightarrow> True
          | Some store' \<Rightarrow> map_of store' (''booking:queue:'' @ bid) = None))
   \<and> statusWriteOk (map_option status (bookings st k)) (map_option status (bookings (step e st) k))"
proof -
  have "statusWriteOk (map_option status (bookings st k)) (map_option status (bookings (step e st) k))"
    by (rule statusWriteOk_of_writeOk [OF writeOk_step])
  moreover have "map_option status (bookings (markNoMechanic bid st) bid) =
        map_option (\<lambda>_. NO_MECHANIC_AVAILABLE) (bookings st bid)"
    by (simp add: bookings_markNoMechanic option.map_comp comp_def)
  ultimately show ?thesis
    using skipToNextMechanic_exhausts [of st bid q reason]
    by (simp split: option.splits)
qed

theorem exhaustion_and_status_writes_witness:
  "activeQueues queuedA ''b1'' = Some queueA \<and> length (mechanics queueA) \<le> Suc (currentIndex queueA)
   \<and> b_id (q_booking queueA) = ''b1''
   \<and> map_option status (bookings (snd (skipToNextMechanic ''b1'' ''timeout'' queuedA)) ''b1'') =
        Some NO_MECHANIC_AVAILABLE
   \<and> last (emitted (snd (skipToNextMechanic ''b1'' ''timeout'' queuedA))) =
        (ToUser ''u1'', BookingNoMechanic ''b1'')
   \<and> activeQueues (snd (skipToNextMechanic ''b1'' ''timeout'' queuedA)) ''b1'' = None
   \<and> redis (snd (skipToNextMechanic ''b1'' ''timeout'' queuedA)) = Some []"
proof -
  have a: "activeQueues queuedA ''b1'' = Some queueA"
    by (simp add: queuedA_def queueA_def idle_def booking1_def engine_defs)
  have b: "length (mechanics queueA) \<le> Suc (currentIndex queueA)" "b_id (q_booking queueA) = ''b1''"
    "userId (q_booking queueA) = ''u1''"
    by (simp_all add: queueA_def booking1_def)
  have c: "map_option (\<lambda>_. NO_MECHANIC_AVAILABLE) (bookings queuedA ''b1'') = Some NO_MECHANIC_AVAILABLE"
    by (simp add: queuedA_def idle_def booking1_def engine_defs)
  have d: "redis (snd (skipToNextMechanic ''b1'' ''timeout'' queuedA)) = Some []"
    by (simp add: queuedA_def idle_def booking1_def engine_defs)
  show ?thesis
    using a b c d
      exhaustion_and_status_writes [of queuedA "''b1''" queueA "''timeout''" "''b1''" "TimerFires 0"]
    by simp
qed

end
